(* ===== verification/Rust_Result.thy ===== *)
theory Rust_Result
  imports Rust_Prelude
begin

text \<open>
  \<^verbatim>\<open>Result\<close> and the \<^verbatim>\<open>?\<close> operator, and the error type of the persistence layer
  (\<^verbatim>\<open>magnetite-db/src/error.rs\<close>). A fallible operation is a sum whose left side is the error; an
  operation on a store returns the new store beside its result, so that what has been written
  before an error stays written.

  SurrealDB is reached only through \<^verbatim>\<open>self.inner\<close>. Its tables are lists of rows in scan order; a
  query of the sources is the corresponding filter, map or sort (ties of \<^verbatim>\<open>ORDER BY\<close> keep the
  scan order); whether a query fails is a parameter of the operations, \<open>fails\<close>, and a failed
  query changes nothing.
\<close>

datatype 'm db_error =
  Surreal | Io | PasswordHashErr | Constraint 'm | Migration | NotFound

type_synonym ('m, 'a) db_result = "'m db_error + 'a"

definition ok_or :: "'e \<Rightarrow> 'a option \<Rightarrow> 'e + 'a" where
  "ok_or e x = (case x of Some v \<Rightarrow> Inr v | None \<Rightarrow> Inl e)"

definition try_r :: "'e + 'a \<Rightarrow> ('a \<Rightarrow> 'e + 'b) \<Rightarrow> 'e + 'b" where
  "try_r r f = (case r of Inl e \<Rightarrow> Inl e | Inr x \<Rightarrow> f x)"

definition try_s :: "'s \<Rightarrow> 'e + 'a \<Rightarrow> ('a \<Rightarrow> 's \<times> ('e + 'b)) \<Rightarrow> 's \<times> ('e + 'b)" where
  "try_s st r f = (case r of Inl e \<Rightarrow> (st, Inl e) | Inr x \<Rightarrow> f x)"

definition then_s :: "'s \<times> ('e + 'a) \<Rightarrow> ('s \<Rightarrow> 'a \<Rightarrow> 's \<times> ('e + 'b)) \<Rightarrow> 's \<times> ('e + 'b)" where
  "then_s p f = (case p of (st, r) \<Rightarrow> try_s st r (f st))"

definition map_err :: "('e \<Rightarrow> 'f) \<Rightarrow> 'e + 'a \<Rightarrow> 'f + 'a" where
  "map_err g r = (case r of Inl e \<Rightarrow> Inl (g e) | Inr x \<Rightarrow> Inr x)"

definition is_ok :: "'e + 'a \<Rightarrow> bool" where
  "is_ok r = (case r of Inl _ \<Rightarrow> False | Inr _ \<Rightarrow> True)"

text \<open>\<^verbatim>\<open>.ok()\<close>\<close>

definition ok_opt :: "'e + 'a \<Rightarrow> 'a option" where
  "ok_opt r = (case r of Inl _ \<Rightarrow> None | Inr x \<Rightarrow> Some x)"

lemma try_r_simps [simp]: "try_r (Inl e) f = Inl e" "try_r (Inr x) f = f x"
  by (simp_all add: try_r_def)

lemma try_s_simps [simp]: "try_s st (Inl e) f = (st, Inl e)" "try_s st (Inr x) f = f x"
  by (simp_all add: try_s_def)

lemma then_s_simps [simp]:
  "then_s (st, Inl e) f = (st, Inl e)" "then_s (st, Inr x) f = f st x"
  by (simp_all add: then_s_def)

lemma ok_simps [simp]:
  "ok_or e None = Inl e" "ok_or e (Some x) = Inr x"
  "is_ok (Inl e) = False" "is_ok (Inr x) = True"
  "map_err g (Inl e) = Inl (g e)" "map_err g (Inr x) = Inr x"
  "ok_opt (Inl e) = None" "ok_opt (Inr x) = Some x"
  by (simp_all add: ok_or_def is_ok_def map_err_def ok_opt_def)

lemma try_r_Inr_iff: "try_r r f = Inr y \<longleftrightarrow> (\<exists>x. r = Inr x \<and> f x = Inr y)"
  by (cases r) auto

lemma try_s_Inr_iff: "try_s st r f = (st', Inr y) \<longleftrightarrow> (\<exists>x. r = Inr x \<and> f x = (st', Inr y))"
  by (cases r) auto

lemma try_s_split:
  "P (try_s st r f) \<longleftrightarrow> (\<forall>e. r = Inl e \<longrightarrow> P (st, Inl e)) \<and> (\<forall>x. r = Inr x \<longrightarrow> P (f x))"
  by (cases r) auto

lemma try_s_split_asm:
  "P (try_s st r f) \<longleftrightarrow>
     \<not> ((\<exists>e. r = Inl e \<and> \<not> P (st, Inl e)) \<or> (\<exists>x. r = Inr x \<and> \<not> P (f x)))"
  by (cases r) auto

lemmas try_s_splits = try_s_split try_s_split_asm

lemma ok_or_Inr_iff [simp]: "ok_or e x = Inr y \<longleftrightarrow> x = Some y"
  by (cases x) auto

lemma ok_or_Inl_iff [simp]: "ok_or e x = Inl e' \<longleftrightarrow> x = None \<and> e' = e"
  by (cases x) auto

end
