(* ===== verification/Authz.thy ===== *)
theory Authz
  imports Rust_Result
begin

text \<open>
  The authorization engine, \<^verbatim>\<open>magnetite-core/src/authz.rs\<close>, and the password policy,
  \<^verbatim>\<open>password.rs\<close>: roles in their declared order, the minimum role of each class of action, the
  decision, and the role an OIDC login gets from its claims.
\<close>

section \<open>Roles\<close>

datatype role = Viewer | Operator | Admin

fun role_rank :: "role \<Rightarrow> nat" where
  "role_rank Viewer = 0"
| "role_rank Operator = 1"
| "role_rank Admin = 2"

text \<open>The derived \<^verbatim>\<open>Ord\<close>: constructors in the order they are declared.\<close>

instantiation role :: linorder
begin

definition less_eq_role :: "role \<Rightarrow> role \<Rightarrow> bool" where
  "less_eq_role a b \<longleftrightarrow> role_rank a \<le> role_rank b"

definition less_role :: "role \<Rightarrow> role \<Rightarrow> bool" where
  "less_role a b \<longleftrightarrow> role_rank a < role_rank b"

instance
proof
  fix x y z :: role
  show "x < y \<longleftrightarrow> x \<le> y \<and> \<not> y \<le> x" by (auto simp: less_eq_role_def less_role_def)
  show "x \<le> x" by (simp add: less_eq_role_def)
  show "x \<le> y \<Longrightarrow> y \<le> z \<Longrightarrow> x \<le> z" by (simp add: less_eq_role_def)
  show "x \<le> y \<Longrightarrow> y \<le> x \<Longrightarrow> x = y" by (cases x; cases y) (simp_all add: less_eq_role_def)
  show "x \<le> y \<or> y \<le> x" by (auto simp: less_eq_role_def)
qed

end

fun role_as_str :: "role \<Rightarrow> string" where
  "role_as_str Viewer = ''viewer''"
| "role_as_str Operator = ''operator''"
| "role_as_str Admin = ''admin''"

definition role_from_str :: "string \<Rightarrow> role option" where
  "role_from_str v =
     (let s = to_ascii_lowercase v
      in if s = ''viewer'' then Some Viewer
         else if s = ''operator'' then Some Operator
         else if s = ''admin'' then Some Admin
         else None)"

section \<open>Decisions\<close>

datatype action_class = Read | Write | Destroy | Control | AdminAction

fun min_role :: "action_class \<Rightarrow> role" where
  "min_role Read = Viewer"
| "min_role Write = Operator"
| "min_role Destroy = Admin"
| "min_role Control = Admin"
| "min_role AdminAction = Admin"

datatype decision = Allow | Deny

definition decide :: "role \<Rightarrow> action_class \<Rightarrow> decision" where
  "decide r a = (if min_role a \<le> r then Allow else Deny)"

definition is_allowed :: "role \<Rightarrow> action_class \<Rightarrow> bool" where
  "is_allowed r a \<longleftrightarrow> decide r a = Allow"

section \<open>Roles from claims\<close>

text \<open>The mapping is a \<^verbatim>\<open>HashMap\<close>, here the list of its entries in iteration order; collecting the
  lower-cased keys keeps the last entry of a key.\<close>

definition normalized_mapping :: "(string \<times> role) list \<Rightarrow> string \<rightharpoonup> role" where
  "normalized_mapping m = map_of (rev (map (\<lambda>(k, v). (to_ascii_lowercase k, v)) m))"

definition role_from_claims ::
  "string list option \<Rightarrow> string list option \<Rightarrow> (string \<times> role) list \<Rightarrow> role" where
  "role_from_claims groups roles m =
     (let claims = (case groups of None \<Rightarrow> [] | Some g \<Rightarrow> g) @ (case roles of None \<Rightarrow> [] | Some r \<Rightarrow> r);
          found = List.map_filter (\<lambda>c. normalized_mapping m (to_ascii_lowercase c)) claims
      in if found = [] then Viewer else Max (set found))"

section \<open>Password policy\<close>

definition check_password :: "string \<Rightarrow> nat \<Rightarrow> string + unit" where
  "check_password pw min_length =
     (if min_length \<le> chars_count pw \<and> list_ex is_ascii_alphabetic pw \<and> list_ex is_ascii_digit pw
      then Inr () else Inl ''setup.error.policy'')"

section \<open>Lemmas\<close>

lemma role_le_Admin [simp]: "r \<le> Admin"
  by (cases r) (simp_all add: less_eq_role_def)

lemma Viewer_le [simp]: "Viewer \<le> r"
  by (cases r) (simp_all add: less_eq_role_def)

lemma role_from_as_str [simp]: "role_from_str (role_as_str r) = Some r"
  by (cases r) (simp_all add: role_from_str_def, code_simp+)

lemma is_allowed_iff: "is_allowed r a \<longleftrightarrow> min_role a \<le> r"
  by (simp add: is_allowed_def decide_def)

lemma is_allowed_mono: "is_allowed r a \<Longrightarrow> r \<le> r' \<Longrightarrow> is_allowed r' a"
  by (auto simp: is_allowed_iff)

text \<open>A claim names a mapping entry up to case, never as a substring.\<close>

definition claim_grants :: "(string \<times> role) list \<Rightarrow> string \<Rightarrow> role \<Rightarrow> bool" where
  "claim_grants m c r \<longleftrightarrow> (\<exists>k. (k, r) \<in> set m \<and> eq_ignore_ascii_case k c)"

lemma normalized_mapping_Some:
  "normalized_mapping m (to_ascii_lowercase c) = Some r \<Longrightarrow> claim_grants m c r"
  by (force simp: normalized_mapping_def claim_grants_def eq_ignore_ascii_case_def
      dest!: map_of_SomeD)

lemma normalized_mapping_None:
  "normalized_mapping m (to_ascii_lowercase c) = None \<longleftrightarrow> (\<forall>r. \<not> claim_grants m c r)"
  by (force simp: normalized_mapping_def claim_grants_def eq_ignore_ascii_case_def
      map_of_eq_None_iff)

lemma role_from_claims_cases:
  "role_from_claims groups roles m = Viewer \<or>
   (\<exists>c \<in> set (case groups of None \<Rightarrow> [] | Some g \<Rightarrow> g) \<union> set (case roles of None \<Rightarrow> [] | Some r \<Rightarrow> r).
      claim_grants m c (role_from_claims groups roles m))"
proof -
  let ?claims = "(case groups of None \<Rightarrow> [] | Some g \<Rightarrow> g) @ (case roles of None \<Rightarrow> [] | Some r \<Rightarrow> r)"
  let ?found = "List.map_filter (\<lambda>c. normalized_mapping m (to_ascii_lowercase c)) ?claims"
  show ?thesis
  proof (cases "?found = []")
    case True
    then show ?thesis by (simp add: role_from_claims_def Let_def)
  next
    case False
    then have "Max (set ?found) \<in> set ?found" by simp
    then obtain c where "c \<in> set ?claims"
      "normalized_mapping m (to_ascii_lowercase c) = Some (Max (set ?found))"
      by (auto simp only: in_set_map_filter)
    then have "claim_grants m c (Max (set ?found))" "c \<in> set ?claims"
      using normalized_mapping_Some by auto
    then show ?thesis using False by (auto simp: role_from_claims_def Let_def)
  qed
qed

abbreviation all_claims :: "string list option \<Rightarrow> string list option \<Rightarrow> string list" where
  "all_claims groups roles \<equiv>
     (case groups of None \<Rightarrow> [] | Some g \<Rightarrow> g) @ (case roles of None \<Rightarrow> [] | Some r \<Rightarrow> r)"

lemma normalized_mapping_unique:
  assumes "distinct (map (to_ascii_lowercase \<circ> fst) m)" and "claim_grants m c r"
  shows "normalized_mapping m (to_ascii_lowercase c) = Some r"
proof -
  let ?l = "rev (map (\<lambda>(k, v). (to_ascii_lowercase k, v)) m)"
  from assms(2) obtain k where "(k, r) \<in> set m" "to_ascii_lowercase k = to_ascii_lowercase c"
    by (auto simp: claim_grants_def eq_ignore_ascii_case_def)
  then have "(to_ascii_lowercase c, r) \<in> set ?l" by force
  moreover have "distinct (map fst ?l)"
    using assms(1) by (simp add: rev_map [symmetric] comp_def case_prod_beta)
  ultimately show ?thesis by (simp add: normalized_mapping_def)
qed

lemma role_from_claims_ge:
  assumes "distinct (map (to_ascii_lowercase \<circ> fst) m)"
    and "c \<in> set (all_claims groups roles)" and "claim_grants m c r"
  shows "r \<le> role_from_claims groups roles m"
proof -
  let ?found = "List.map_filter (\<lambda>c. normalized_mapping m (to_ascii_lowercase c))
    (all_claims groups roles)"
  have "r \<in> set ?found"
    using assms(2) normalized_mapping_unique [OF assms(1,3)] unfolding in_set_map_filter by blast
  moreover from this have "?found \<noteq> []" by (metis empty_iff list.set(1))
  ultimately have "r \<le> Max (set ?found)" by simp
  with \<open>?found \<noteq> []\<close> show ?thesis by (simp add: role_from_claims_def Let_def)
qed

section \<open>Properties\<close>



text \<open>\<^bold>\<open>C20.\<close> Roles from claims never escalate. The role an OIDC login gets is Viewer or the role
  of a mapping entry whose key equals one of the login's claims up to ASCII case; and when no two
  keys of the mapping differ in case only, it is at least the role of every entry that matches a
  claim, so it is the highest.\<close>

theorem role_from_claims_highest:
  "(role_from_claims groups roles m = Viewer \<or>
    (\<exists>c \<in> set (all_claims groups roles).
       claim_grants m c (role_from_claims groups roles m))) \<and>
   (distinct (map (to_ascii_lowercase \<circ> fst) m) \<and> c \<in> set (all_claims groups roles) \<and>
    claim_grants m c r \<longrightarrow> r \<le> role_from_claims groups roles m)"
  using role_from_claims_cases [of groups roles m] role_from_claims_ge [of m c groups roles r]
  by auto

theorem role_from_claims_highest_witness:
  "Operator \<le> role_from_claims (Some [''Ops'', ''non-admin'']) None
                 [(''ops'', Operator), (''admin'', Admin)]"
proof -
  have "distinct (map (to_ascii_lowercase \<circ> fst) [(''ops'', Operator), (''admin'', Admin)])"
    by code_simp
  moreover have "eq_ignore_ascii_case ''ops'' ''Ops''" by code_simp
  then have "claim_grants [(''ops'', Operator), (''admin'', Admin)] ''Ops'' Operator"
    by (auto simp: claim_grants_def)
  ultimately show ?thesis
    using role_from_claims_highest [of "Some [''Ops'', ''non-admin'']" None
        "[(''ops'', Operator), (''admin'', Admin)]" "''Ops''" Operator] by simp
qed

end
