(* ===== verification/Accounts.thy ===== *)
theory Accounts
  imports Authz
begin

text \<open>
  Local login accounts and portal sessions: the repositories
  \<^verbatim>\<open>magnetite-db/src/accounts.rs\<close> and \<^verbatim>\<open>sessions.rs\<close>, the append of \<^verbatim>\<open>audit.rs\<close>, and the server
  functions of \<^verbatim>\<open>magnetite-app/src/server_fns/auth.rs\<close> and \<^verbatim>\<open>account.rs\<close> that call them. The
  state is the three tables. Argon2, the clock, the random identifiers, the request's cookie and
  its address, and which queries fail are the environment of a call.

  The step relation \<open>auth_step\<close> is the portal as its administrators drive it; its invariant is
  that user names and session ids are unique and that, once set up, there is always an enabled
  administrator.
\<close>

section \<open>Data\<close>

record account =
  acc_id :: string
  acc_username :: string
  acc_password_hash :: string
  acc_role :: role
  acc_enabled :: bool
  acc_created_at :: time
  acc_updated_at :: time
  acc_last_login_at :: "time option"

datatype auth_method = Local | Sso

record session =
  sess_id :: string
  sess_subject :: string
  sess_auth_method :: auth_method
  sess_role :: role
  sess_display_name :: "string option"
  sess_email :: "string option"
  sess_sso_tokens :: "string option"
  sess_login_ip :: string
  sess_created_at :: time
  sess_expires_at :: time
  sess_revoked_at :: "time option"

record portal_user =
  cu_subject :: string
  cu_display_name :: string
  cu_email :: "string option"
  cu_role :: role
  cu_auth_method :: auth_method

datatype action_kind = ActCreate | ActUpdate | ActDelete | ActControl | ActLogin | ActLogout | ActRestore

datatype op_result = Success | Failure

record audit_entry =
  aud_at :: time
  aud_actor :: string
  aud_actor_role :: role
  aud_action :: action_kind
  aud_target_kind :: string
  aud_target_id :: string
  aud_result :: op_result
  aud_ip :: string

record auth_db =
  accounts :: "account list"
  sessions :: "session list"
  audit_log :: "audit_entry list"

text \<open>The queries of the two repositories, so that each can fail on its own.\<close>

datatype auth_query =
  Q_count | Q_find | Q_list | Q_create_account | Q_touch | Q_set_role | Q_set_enabled
| Q_delete_account | Q_set_password | Q_create_session | Q_get_session | Q_revoke_session
| Q_revoke_subject | Q_cleanup | Q_audit

text \<open>The messages of the constraints.\<close>

datatype auth_msg = DupUsername | SetupCompleted | LastAdminRole | LastAdminDisable | LastAdminDelete

type_synonym 'a auth_result = "(auth_msg, 'a) db_result"

text \<open>What a call depends on besides the store.\<close>

record auth_env =
  env_fails :: "auth_query \<Rightarrow> bool"
  env_now :: time
  env_record_id :: string
  env_uuid :: string
  env_salt :: string
  env_ip :: string
  env_cookies :: "(string option) option"
  argon_hash :: "string \<Rightarrow> string \<Rightarrow> string option"
  argon_parses :: "string \<Rightarrow> bool"
  argon_verify :: "string \<Rightarrow> string \<Rightarrow> bool"
  password_min_length :: nat

definition hours :: "int \<Rightarrow> time" where
  "hours n = n * 3600000000000"

section \<open>The repositories\<close>

definition is_valid_at :: "session \<Rightarrow> time \<Rightarrow> bool" where
  "is_valid_at s t \<longleftrightarrow> sess_revoked_at s = None \<and> t < sess_expires_at s"

definition hash_password :: "auth_env \<Rightarrow> string \<Rightarrow> string auth_result" where
  "hash_password env pw = ok_or PasswordHashErr (argon_hash env (env_salt env) pw)"

definition count_accounts :: "auth_env \<Rightarrow> auth_db \<Rightarrow> nat auth_result" where
  "count_accounts env db = (if env_fails env Q_count then Inl Surreal else Inr (length (accounts db)))"

definition has_accounts :: "auth_env \<Rightarrow> auth_db \<Rightarrow> bool auth_result" where
  "has_accounts env db = try_r (count_accounts env db) (\<lambda>n. Inr (0 < n))"

definition find_account_by_username ::
  "auth_env \<Rightarrow> auth_db \<Rightarrow> string \<Rightarrow> account option auth_result" where
  "find_account_by_username env db u =
     (if env_fails env Q_find then Inl Surreal
      else Inr (List.find (\<lambda>a. acc_username a = u) (accounts db)))"

text \<open>The table has a unique index on the user name.\<close>

definition insert_account :: "auth_env \<Rightarrow> auth_db \<Rightarrow> account \<Rightarrow> auth_db \<times> account auth_result" where
  "insert_account env db a =
     (if env_fails env Q_create_account \<or> acc_username a \<in> acc_username ` set (accounts db)
      then (db, Inl Surreal)
      else (db\<lparr>accounts := accounts db @ [a]\<rparr>, Inr a))"

definition create_account ::
  "auth_env \<Rightarrow> auth_db \<Rightarrow> string \<Rightarrow> string \<Rightarrow> role \<Rightarrow> auth_db \<times> account auth_result" where
  "create_account env db u pw r =
     try_s db (find_account_by_username env db u) (\<lambda>found.
       if found \<noteq> None then (db, Inl (Constraint DupUsername))
       else try_s db (hash_password env pw) (\<lambda>h.
         insert_account env db \<lparr>acc_id = env_record_id env, acc_username = u, acc_password_hash = h,
           acc_role = r, acc_enabled = True, acc_created_at = env_now env, acc_updated_at = env_now env,
           acc_last_login_at = None\<rparr>))"

definition create_first_admin ::
  "auth_env \<Rightarrow> auth_db \<Rightarrow> string \<Rightarrow> string \<Rightarrow> auth_db \<times> account auth_result" where
  "create_first_admin env db u pw =
     try_s db (has_accounts env db) (\<lambda>has.
       if has then (db, Inl (Constraint SetupCompleted))
       else create_account env db u pw Admin)"

definition verify_login ::
  "auth_env \<Rightarrow> auth_db \<Rightarrow> string \<Rightarrow> string \<Rightarrow> account option auth_result" where
  "verify_login env db u pw =
     try_r (find_account_by_username env db u) (\<lambda>found.
       case found of
         None \<Rightarrow> Inr None
       | Some a \<Rightarrow>
           if \<not> acc_enabled a then Inr None
           else if \<not> argon_parses env (acc_password_hash a) then Inr None
           else if argon_verify env pw (acc_password_hash a) then Inr (Some a)
           else Inr None)"

definition list_accounts :: "auth_env \<Rightarrow> auth_db \<Rightarrow> account list auth_result" where
  "list_accounts env db =
     (if env_fails env Q_list then Inl Surreal else Inr (sort_key acc_created_at (accounts db)))"

definition count_enabled_admins :: "auth_env \<Rightarrow> auth_db \<Rightarrow> nat auth_result" where
  "count_enabled_admins env db =
     try_r (list_accounts env db) (\<lambda>as.
       Inr (length (filter (\<lambda>a. acc_enabled a \<and> acc_role a = Admin) as)))"

text \<open>\<^verbatim>\<open>UPDATE account SET ... WHERE username = $u\<close>\<close>

definition update_account ::
  "auth_env \<Rightarrow> auth_query \<Rightarrow> auth_db \<Rightarrow> string \<Rightarrow> (account \<Rightarrow> account) \<Rightarrow> auth_db \<times> unit auth_result"
  where
  "update_account env q db u f =
     (if env_fails env q then (db, Inl Surreal)
      else (db\<lparr>accounts := map (\<lambda>a. if acc_username a = u then f a else a) (accounts db)\<rparr>, Inr ()))"

definition touch_last_login :: "auth_env \<Rightarrow> auth_db \<Rightarrow> string \<Rightarrow> auth_db \<times> unit auth_result" where
  "touch_last_login env db u =
     update_account env Q_touch db u (\<lambda>a. a\<lparr>acc_last_login_at := Some (env_now env)\<rparr>)"

definition is_last_enabled_admin :: "auth_env \<Rightarrow> auth_db \<Rightarrow> account \<Rightarrow> bool auth_result" where
  "is_last_enabled_admin env db a =
     (if acc_enabled a \<and> acc_role a = Admin
      then try_r (count_enabled_admins env db) (\<lambda>n. Inr (n \<le> 1))
      else Inr False)"

definition revoke_sessions_for_subject ::
  "auth_env \<Rightarrow> auth_db \<Rightarrow> string \<Rightarrow> auth_db \<times> unit auth_result" where
  "revoke_sessions_for_subject env db sub =
     (if env_fails env Q_revoke_subject then (db, Inl Surreal)
      else (db\<lparr>sessions := map (\<lambda>s. if sess_subject s = sub \<and> sess_revoked_at s = None
                                    then s\<lparr>sess_revoked_at := Some (env_now env)\<rparr> else s) (sessions db)\<rparr>,
            Inr ()))"

text \<open>The three guarded operations check first and write afterwards, in separate queries.\<close>

definition set_account_role_guard :: "auth_env \<Rightarrow> auth_db \<Rightarrow> string \<Rightarrow> role \<Rightarrow> unit auth_result" where
  "set_account_role_guard env db u r =
     try_r (find_account_by_username env db u) (\<lambda>found.
     try_r (ok_or NotFound found) (\<lambda>a.
       if r \<noteq> Admin
       then try_r (is_last_enabled_admin env db a) (\<lambda>last.
              if last then Inl (Constraint LastAdminRole) else Inr ())
       else Inr ()))"

definition set_account_role_write ::
  "auth_env \<Rightarrow> auth_db \<Rightarrow> string \<Rightarrow> role \<Rightarrow> auth_db \<times> unit auth_result" where
  "set_account_role_write env db u r =
     update_account env Q_set_role db u (\<lambda>a. a\<lparr>acc_role := r, acc_updated_at := env_now env\<rparr>)"

definition set_account_role ::
  "auth_env \<Rightarrow> auth_db \<Rightarrow> string \<Rightarrow> role \<Rightarrow> auth_db \<times> unit auth_result" where
  "set_account_role env db u r =
     try_s db (set_account_role_guard env db u r) (\<lambda>_. set_account_role_write env db u r)"

definition set_account_enabled ::
  "auth_env \<Rightarrow> auth_db \<Rightarrow> string \<Rightarrow> bool \<Rightarrow> auth_db \<times> unit auth_result" where
  "set_account_enabled env db u e =
     try_s db (find_account_by_username env db u) (\<lambda>found.
     try_s db (ok_or NotFound found) (\<lambda>a.
     try_s db (if e then Inr False else is_last_enabled_admin env db a) (\<lambda>last.
       if last then (db, Inl (Constraint LastAdminDisable))
       else then_s (update_account env Q_set_enabled db u
                      (\<lambda>a. a\<lparr>acc_enabled := e, acc_updated_at := env_now env\<rparr>)) (\<lambda>db1 _.
              if e then (db1, Inr ()) else revoke_sessions_for_subject env db1 u))))"

definition delete_account :: "auth_env \<Rightarrow> auth_db \<Rightarrow> string \<Rightarrow> auth_db \<times> unit auth_result" where
  "delete_account env db u =
     try_s db (find_account_by_username env db u) (\<lambda>found.
     try_s db (ok_or NotFound found) (\<lambda>a.
     try_s db (is_last_enabled_admin env db a) (\<lambda>last.
       if last then (db, Inl (Constraint LastAdminDelete))
       else if env_fails env Q_delete_account then (db, Inl Surreal)
       else revoke_sessions_for_subject env
              (db\<lparr>accounts := filter (\<lambda>a. acc_username a \<noteq> u) (accounts db)\<rparr>) u)))"

definition reset_account_password ::
  "auth_env \<Rightarrow> auth_db \<Rightarrow> string \<Rightarrow> string \<Rightarrow> auth_db \<times> unit auth_result" where
  "reset_account_password env db u pw =
     try_s db (find_account_by_username env db u) (\<lambda>found.
     try_s db (ok_or NotFound found) (\<lambda>_.
     try_s db (hash_password env pw) (\<lambda>h.
       update_account env Q_set_password db u
         (\<lambda>a. a\<lparr>acc_password_hash := h, acc_updated_at := env_now env\<rparr>))))"

text \<open>The session table has a unique index on the session id.\<close>

definition create_session :: "auth_env \<Rightarrow> auth_db \<Rightarrow> session \<Rightarrow> auth_db \<times> unit auth_result" where
  "create_session env db s =
     (if env_fails env Q_create_session \<or> sess_id s \<in> sess_id ` set (sessions db)
      then (db, Inl Surreal)
      else (db\<lparr>sessions := sessions db @ [s]\<rparr>, Inr ()))"

definition get_valid_session :: "auth_env \<Rightarrow> auth_db \<Rightarrow> string \<Rightarrow> session option auth_result" where
  "get_valid_session env db sid =
     (if env_fails env Q_get_session then Inl Surreal
      else Inr (case List.find (\<lambda>s. sess_id s = sid) (sessions db) of
                  None \<Rightarrow> None
                | Some s \<Rightarrow> if is_valid_at s (env_now env) then Some s else None))"

definition revoke_session :: "auth_env \<Rightarrow> auth_db \<Rightarrow> string \<Rightarrow> auth_db \<times> unit auth_result" where
  "revoke_session env db sid =
     (if env_fails env Q_revoke_session then (db, Inl Surreal)
      else (db\<lparr>sessions := map (\<lambda>s. if sess_id s = sid \<and> sess_revoked_at s = None
                                    then s\<lparr>sess_revoked_at := Some (env_now env)\<rparr> else s) (sessions db)\<rparr>,
            Inr ()))"

definition cleanup_expired_sessions :: "auth_env \<Rightarrow> auth_db \<Rightarrow> auth_db \<times> unit auth_result" where
  "cleanup_expired_sessions env db =
     (if env_fails env Q_cleanup then (db, Inl Surreal)
      else (db\<lparr>sessions := filter (\<lambda>s. \<not> (sess_expires_at s < env_now env \<or> sess_revoked_at s \<noteq> None))
                               (sessions db)\<rparr>, Inr ()))"

definition append_audit :: "auth_env \<Rightarrow> auth_db \<Rightarrow> audit_entry \<Rightarrow> auth_db" where
  "append_audit env db e = (if env_fails env Q_audit then db else db\<lparr>audit_log := audit_log db @ [e]\<rparr>)"

section \<open>The server functions\<close>

datatype fn_error =
  CookieExtract | AuthRequired | NoPermission | Policy string | BadUsername | BadRole | BadPassword
| LoginError | DbErr "auth_msg db_error"

text \<open>\<open>env_cookies\<close> is None when extracting them fails; inside, the value of the session cookie.\<close>

definition current_user :: "auth_env \<Rightarrow> auth_db \<Rightarrow> fn_error + portal_user option" where
  "current_user env db =
     (case env_cookies env of
        None \<Rightarrow> Inl CookieExtract
      | Some None \<Rightarrow> Inr None
      | Some (Some sid) \<Rightarrow>
          try_r (map_err DbErr (get_valid_session env db sid)) (\<lambda>s.
            Inr (map_option (\<lambda>s. \<lparr>cu_subject = sess_subject s,
                   cu_display_name = (case sess_display_name s of None \<Rightarrow> [] | Some d \<Rightarrow> d),
                   cu_email = sess_email s, cu_role = sess_role s,
                   cu_auth_method = sess_auth_method s\<rparr>) s)))"

definition require :: "auth_env \<Rightarrow> auth_db \<Rightarrow> action_class \<Rightarrow> fn_error + portal_user" where
  "require env db act =
     try_r (current_user env db) (\<lambda>u.
     try_r (ok_or AuthRequired u) (\<lambda>user.
       if is_allowed (cu_role user) act then Inr user else Inl NoPermission))"

definition audit_portal ::
  "auth_env \<Rightarrow> auth_db \<Rightarrow> string \<Rightarrow> role \<Rightarrow> action_kind \<Rightarrow> string \<Rightarrow> string \<Rightarrow> op_result \<Rightarrow> auth_db" where
  "audit_portal env db who r act kind tgt res =
     append_audit env db \<lparr>aud_at = env_now env, aud_actor = who, aud_actor_role = r, aud_action = act,
       aud_target_kind = kind, aud_target_id = tgt, aud_result = res, aud_ip = env_ip env\<rparr>"

definition local_session :: "auth_env \<Rightarrow> string \<Rightarrow> role \<Rightarrow> session" where
  "local_session env sub r =
     \<lparr>sess_id = env_uuid env, sess_subject = sub, sess_auth_method = Local, sess_role = r,
      sess_display_name = Some sub, sess_email = None, sess_sso_tokens = None,
      sess_login_ip = env_ip env, sess_created_at = env_now env, sess_expires_at = env_now env + hours 24,
      sess_revoked_at = None\<rparr>"

text \<open>The functions that log in return the value of the cookie they set.\<close>

definition set_cookie :: "auth_env \<Rightarrow> string \<Rightarrow> fn_error + string" where
  "set_cookie env sid = (if env_cookies env = None then Inl CookieExtract else Inr sid)"

definition start_session ::
  "auth_env \<Rightarrow> auth_db \<Rightarrow> string \<Rightarrow> role \<Rightarrow> auth_db \<times> (fn_error + string)" where
  "start_session env db sub r =
     (case create_session env db (local_session env sub r) of
        (db1, Inl e) \<Rightarrow> (db1, Inl (DbErr e))
      | (db1, Inr _) \<Rightarrow> (fst (touch_last_login env db1 sub), set_cookie env (env_uuid env)))"

definition setup_first_admin ::
  "auth_env \<Rightarrow> auth_db \<Rightarrow> string \<Rightarrow> string \<Rightarrow> auth_db \<times> (fn_error + string)" where
  "setup_first_admin env db u pw =
     try_s db (map_err Policy (check_password pw (password_min_length env))) (\<lambda>_.
       case create_first_admin env db u pw of
         (db1, Inl e) \<Rightarrow> (db1, Inl (DbErr e))
       | (db1, Inr a) \<Rightarrow>
           start_session env
             (audit_portal env db1 (acc_username a) (acc_role a) ActCreate ''local_account''
                (acc_username a) Success)
             (acc_username a) (acc_role a))"

definition local_login ::
  "auth_env \<Rightarrow> auth_db \<Rightarrow> string \<Rightarrow> string \<Rightarrow> auth_db \<times> (fn_error + string)" where
  "local_login env db u pw =
     try_s db (map_err DbErr (verify_login env db u pw)) (\<lambda>found.
       case found of
         None \<Rightarrow> (audit_portal env db u Viewer ActLogin ''session'' u Failure, Inl LoginError)
       | Some a \<Rightarrow>
           (case create_session env db (local_session env (acc_username a) (acc_role a)) of
              (db1, Inl e) \<Rightarrow> (db1, Inl (DbErr e))
            | (db1, Inr _) \<Rightarrow>
                (audit_portal env (fst (touch_last_login env db1 (acc_username a)))
                   (acc_username a) (acc_role a) ActLogin ''session'' (env_uuid env) Success,
                 set_cookie env (env_uuid env))))"

definition logout :: "auth_env \<Rightarrow> auth_db \<Rightarrow> auth_db \<times> (fn_error + unit)" where
  "logout env db =
     (case env_cookies env of
        None \<Rightarrow> (db, Inl CookieExtract)
      | Some None \<Rightarrow> (db, Inr ())
      | Some (Some sid) \<Rightarrow>
          let sub = (case get_valid_session env db sid of Inr (Some s) \<Rightarrow> sess_subject s | _ \<Rightarrow> [])
          in (audit_portal env (fst (revoke_session env db sid)) sub Viewer ActLogout ''session'' sid
                Success, Inr ()))"

text \<open>An administrator's operation: authorize, run, audit.\<close>

definition admin_call ::
  "auth_env \<Rightarrow> auth_db \<Rightarrow> (portal_user \<Rightarrow> fn_error + unit) \<Rightarrow> auth_db \<times> unit auth_result
   \<Rightarrow> action_kind \<Rightarrow> string \<Rightarrow> string \<Rightarrow> auth_db \<times> (fn_error + unit)" where
  "admin_call env db checks run act kind tgt =
     try_s db (require env db AdminAction) (\<lambda>user.
     try_s db (checks user) (\<lambda>_.
       case run of
         (db1, Inl e) \<Rightarrow> (db1, Inl (DbErr e))
       | (db1, Inr _) \<Rightarrow>
           (audit_portal env db1 (cu_subject user) (cu_role user) act kind tgt Success, Inr ())))"

definition create_local_account ::
  "auth_env \<Rightarrow> auth_db \<Rightarrow> string \<Rightarrow> string \<Rightarrow> string \<Rightarrow> auth_db \<times> (fn_error + unit)" where
  "create_local_account env db u pw r =
     admin_call env db
       (\<lambda>_. if trim u = [] \<or> 64 < chars_count (trim u) then Inl BadUsername
            else if role_from_str r = None then Inl BadRole
            else if \<not> is_ok (check_password pw (password_min_length env)) then Inl BadPassword
            else Inr ())
       (case create_account env db u pw (case role_from_str r of Some r' \<Rightarrow> r' | None \<Rightarrow> Viewer) of
          (db1, Inl e) \<Rightarrow> (db1, Inl e) | (db1, Inr _) \<Rightarrow> (db1, Inr ()))
       ActCreate ''local_account'' u"

definition set_account_role_fn ::
  "auth_env \<Rightarrow> auth_db \<Rightarrow> string \<Rightarrow> string \<Rightarrow> auth_db \<times> (fn_error + unit)" where
  "set_account_role_fn env db u r =
     admin_call env db (\<lambda>_. if role_from_str r = None then Inl BadRole else Inr ())
       (set_account_role env db u (case role_from_str r of Some r' \<Rightarrow> r' | None \<Rightarrow> Viewer))
       ActUpdate ''local_account'' u"

definition set_account_enabled_fn ::
  "auth_env \<Rightarrow> auth_db \<Rightarrow> string \<Rightarrow> bool \<Rightarrow> auth_db \<times> (fn_error + unit)" where
  "set_account_enabled_fn env db u e =
     admin_call env db (\<lambda>_. Inr ()) (set_account_enabled env db u e) ActUpdate ''local_account'' u"

definition delete_local_account :: "auth_env \<Rightarrow> auth_db \<Rightarrow> string \<Rightarrow> auth_db \<times> (fn_error + unit)" where
  "delete_local_account env db u =
     admin_call env db (\<lambda>_. Inr ()) (delete_account env db u) ActDelete ''local_account'' u"

definition reset_account_password_fn ::
  "auth_env \<Rightarrow> auth_db \<Rightarrow> string \<Rightarrow> string \<Rightarrow> auth_db \<times> (fn_error + unit)" where
  "reset_account_password_fn env db u pw =
     admin_call env db
       (\<lambda>_. if \<not> is_ok (check_password pw (password_min_length env)) then Inl BadPassword else Inr ())
       (reset_account_password env db u pw) ActUpdate ''local_account_password'' u"

section \<open>The portal as a transition system\<close>

inductive auth_step :: "auth_db \<Rightarrow> auth_db \<Rightarrow> bool" where
  Setup: "auth_step db (fst (setup_first_admin env db u pw))"
| Login: "auth_step db (fst (local_login env db u pw))"
| Logout: "auth_step db (fst (logout env db))"
| Create: "auth_step db (fst (create_local_account env db u pw r))"
| SetRole: "auth_step db (fst (set_account_role_fn env db u r))"
| SetEnabled: "auth_step db (fst (set_account_enabled_fn env db u e))"
| Delete: "auth_step db (fst (delete_local_account env db u))"
| ResetPassword: "auth_step db (fst (reset_account_password_fn env db u pw))"
| Cleanup: "auth_step db (fst (cleanup_expired_sessions env db))"

definition empty_auth_db :: auth_db where
  "empty_auth_db = \<lparr>accounts = [], sessions = [], audit_log = []\<rparr>"

definition enabled_admin :: "account \<Rightarrow> bool" where
  "enabled_admin a \<longleftrightarrow> acc_enabled a \<and> acc_role a = Admin"

definition auth_inv :: "auth_db \<Rightarrow> bool" where
  "auth_inv db \<longleftrightarrow>
     distinct (map acc_username (accounts db)) \<and>
     distinct (map sess_id (sessions db)) \<and>
     (accounts db \<noteq> [] \<longrightarrow> list_ex enabled_admin (accounts db)) \<and>
     (sessions db \<noteq> [] \<longrightarrow> accounts db \<noteq> [])"

section \<open>The invariant\<close>

lemmas auth_op_defs = setup_first_admin_def local_login_def logout_def start_session_def
  create_local_account_def set_account_role_fn_def set_account_enabled_fn_def
  delete_local_account_def reset_account_password_fn_def

lemma audit_keeps [simp]:
  "accounts (audit_portal env db w r act k t res) = accounts db"
  "sessions (audit_portal env db w r act k t res) = sessions db"
  by (simp_all add: audit_portal_def append_audit_def)

lemma auth_inv_audit [simp]: "auth_inv (audit_portal env db w r act k t res) = auth_inv db"
  by (simp add: auth_inv_def)

text \<open>An update that keeps the user name, and keeps or is not needed as the enabled administrator.\<close>

lemma auth_inv_update_accounts:
  assumes "auth_inv db"
    and "\<And>a. acc_username (f a) = acc_username a"
    and "accounts db \<noteq> [] \<Longrightarrow> \<exists>a \<in> set (accounts db). enabled_admin (f a)"
  shows "auth_inv (db\<lparr>accounts := map f (accounts db)\<rparr>)"
  using assms by (auto simp: auth_inv_def list_ex_iff comp_def)

lemma auth_inv_map_sessions:
  assumes "auth_inv db" and "\<And>s. sess_id (f s) = sess_id s"
  shows "auth_inv (db\<lparr>sessions := map f (sessions db)\<rparr>)"
  using assms by (simp add: auth_inv_def comp_def)

lemma auth_inv_update:
  assumes "auth_inv db" and "\<And>a. acc_username (f a) = acc_username a"
    and "accounts db \<noteq> [] \<Longrightarrow>
         \<exists>b \<in> set (accounts db). enabled_admin (if acc_username b = u then f b else b)"
  shows "auth_inv (fst (update_account env q db u f))"
proof (cases "env_fails env q")
  case True
  then show ?thesis using assms(1) by (simp add: update_account_def)
next
  case False
  have "auth_inv (db\<lparr>accounts := map (\<lambda>a. if acc_username a = u then f a else a) (accounts db)\<rparr>)"
    using assms by (intro auth_inv_update_accounts) auto
  then show ?thesis using False by (simp add: update_account_def)
qed

lemma auth_inv_update_upgrade:
  assumes "auth_inv db" and "\<And>a. acc_username (f a) = acc_username a"
    and "\<And>a. enabled_admin a \<Longrightarrow> enabled_admin (f a)"
  shows "auth_inv (fst (update_account env q db u f))"
  using assms by (intro auth_inv_update) (auto simp: auth_inv_def list_ex_iff)

lemma auth_inv_touch: "auth_inv db \<Longrightarrow> auth_inv (fst (touch_last_login env db u))"
  unfolding touch_last_login_def
  by (rule auth_inv_update_upgrade) (simp_all add: enabled_admin_def)

lemma auth_inv_revoke_subject:
  "auth_inv db \<Longrightarrow> auth_inv (fst (revoke_sessions_for_subject env db u))"
  by (auto simp: revoke_sessions_for_subject_def intro!: auth_inv_map_sessions)

lemma auth_inv_revoke: "auth_inv db \<Longrightarrow> auth_inv (fst (revoke_session env db u))"
  by (auto simp: revoke_session_def intro!: auth_inv_map_sessions)

lemma auth_inv_create_session:
  "auth_inv db \<Longrightarrow> accounts db \<noteq> [] \<Longrightarrow> auth_inv (fst (create_session env db s))"
  by (auto simp: create_session_def auth_inv_def)

lemma find_username:
  "find_account_by_username env db u = Inr (Some a) \<Longrightarrow> a \<in> set (accounts db) \<and> acc_username a = u"
  by (auto simp: find_account_by_username_def split: if_splits dest: find_SomeD)

lemma find_username_None:
  "find_account_by_username env db u = Inr None \<Longrightarrow> u \<notin> acc_username ` set (accounts db)"
  by (auto simp: find_account_by_username_def find_None_iff_all split: if_splits)

text \<open>What the last-administrator guard establishes: another enabled administrator.\<close>

lemma not_last_admin:
  assumes "distinct (map acc_username (accounts db))" and "a \<in> set (accounts db)"
    and "enabled_admin a" and "is_last_enabled_admin env db a = Inr False"
  shows "\<exists>b \<in> set (accounts db). acc_username b \<noteq> acc_username a \<and> enabled_admin b"
proof -
  let ?adm = "filter enabled_admin (accounts db)"
  have ea: "enabled_admin = (\<lambda>a. acc_enabled a \<and> acc_role a = Admin)"
    by (simp add: fun_eq_iff enabled_admin_def)
  have "length (filter enabled_admin (sort_key acc_created_at (accounts db))) > 1"
    using assms(3,4)
    by (auto simp: is_last_enabled_admin_def count_enabled_admins_def list_accounts_def ea
        split: if_splits)
  then have len: "1 < length ?adm" by (simp add: filter_sort)
  have "a \<in> set ?adm" using assms by simp
  moreover have "distinct ?adm" using assms(1) by (simp add: distinct_map)
  ultimately have "set ?adm \<noteq> {a}"
    using len distinct_card [of ?adm] by auto
  then obtain b where "b \<in> set ?adm" "b \<noteq> a" using \<open>a \<in> set ?adm\<close> by blast
  moreover from this have "acc_username b \<noteq> acc_username a"
    using assms(1,2) by (auto simp: distinct_map dest: inj_onD)
  ultimately show ?thesis by auto
qed

lemma is_last_False: "is_last_enabled_admin env db a = Inr False \<or> \<not> enabled_admin a
   \<or> is_last_enabled_admin env db a = Inr True \<or> is_last_enabled_admin env db a = Inl Surreal"
  by (auto simp: is_last_enabled_admin_def count_enabled_admins_def list_accounts_def
      enabled_admin_def)

text \<open>A change confined to one user name leaves an enabled administrator if the guard passed.\<close>

lemma other_admin:
  assumes "auth_inv db" and "a \<in> set (accounts db)" and "is_last_enabled_admin env db a = Inr False"
  shows "\<exists>b \<in> set (accounts db). acc_username b \<noteq> acc_username a \<and> enabled_admin b"
proof (cases "enabled_admin a")
  case True
  then show ?thesis
    using assms not_last_admin by (auto simp: auth_inv_def)
next
  case False
  from assms(1,2) obtain b where b: "b \<in> set (accounts db)" "enabled_admin b"
    by (auto simp: auth_inv_def list_ex_iff)
  moreover from b False have "b \<noteq> a" by auto
  then have "acc_username b \<noteq> acc_username a"
    using assms b(1) by (auto simp: auth_inv_def distinct_map dest: inj_onD)
  ultimately show ?thesis by blast
qed

lemma auth_inv_update_guarded:
  assumes "auth_inv db" and "\<And>a. acc_username (f a) = acc_username a"
    and "\<exists>b \<in> set (accounts db). acc_username b \<noteq> u \<and> enabled_admin b"
  shows "auth_inv (fst (update_account env q db u f))"
  using assms by (intro auth_inv_update) auto

lemma auth_inv_set_role:
  assumes "auth_inv db"
  shows "auth_inv (fst (set_account_role env db u r))"
proof (cases "set_account_role_guard env db u r")
  case (Inl e)
  then show ?thesis using assms by (simp add: set_account_role_def)
next
  case (Inr x)
  then obtain a where a: "a \<in> set (accounts db)" "acc_username a = u"
    and g: "r = Admin \<or> is_last_enabled_admin env db a = Inr False"
    by (auto simp: set_account_role_guard_def try_r_Inr_iff dest: find_username split: if_splits)
  from g have "auth_inv (fst (set_account_role_write env db u r))"
    unfolding set_account_role_write_def
  proof
    assume "r = Admin"
    with assms show "auth_inv (fst (update_account env Q_set_role db u
        (\<lambda>a. a\<lparr>acc_role := r, acc_updated_at := env_now env\<rparr>)))"
      by (intro auth_inv_update_upgrade) (auto simp: enabled_admin_def)
  next
    assume "is_last_enabled_admin env db a = Inr False"
    then show "auth_inv (fst (update_account env Q_set_role db u
        (\<lambda>a. a\<lparr>acc_role := r, acc_updated_at := env_now env\<rparr>)))"
      using assms a other_admin [OF assms a(1)] by (intro auth_inv_update_guarded) auto
  qed
  with Inr show ?thesis by (simp add: set_account_role_def)
qed

lemma auth_inv_set_enabled:
  assumes "auth_inv db"
  shows "auth_inv (fst (set_account_enabled env db u e))"
proof -
  let ?f = "\<lambda>a. a\<lparr>acc_enabled := e, acc_updated_at := env_now env\<rparr>"
  have upd: "auth_inv (fst (update_account env Q_set_enabled db u ?f))"
    if "a \<in> set (accounts db)" "acc_username a = u"
      "(if e then Inr False else is_last_enabled_admin env db a) = Inr False" for a
  proof (cases e)
    case True
    then show ?thesis using assms by (intro auth_inv_update_upgrade) (auto simp: enabled_admin_def)
  next
    case False
    then show ?thesis
      using assms that other_admin [OF assms that(1)] by (intro auth_inv_update_guarded) auto
  qed
  have run: "auth_inv (fst (then_s (update_account env Q_set_enabled db u ?f)
      (\<lambda>db1 _. if e then (db1, Inr ()) else revoke_sessions_for_subject env db1 u)))"
    if "auth_inv (fst (update_account env Q_set_enabled db u ?f))"
    using that auth_inv_revoke_subject
    by (cases "update_account env Q_set_enabled db u ?f") (auto simp: then_s_def split: try_s_splits)
  show ?thesis
    using assms run [OF upd]
    by (auto simp: set_account_enabled_def split: try_s_splits dest!: find_username)
qed

lemma auth_inv_delete:
  assumes "auth_inv db"
  shows "auth_inv (fst (delete_account env db u))"
proof -
  let ?db = "db\<lparr>accounts := filter (\<lambda>a. acc_username a \<noteq> u) (accounts db)\<rparr>"
  have "auth_inv ?db"
    if a: "a \<in> set (accounts db)" "acc_username a = u" "is_last_enabled_admin env db a = Inr False"
    for a
  proof -
    obtain b where "b \<in> set (accounts db)" "acc_username b \<noteq> u" "enabled_admin b"
      using other_admin [OF assms a(1,3)] a(2) by auto
    then have "\<exists>b \<in> set (accounts ?db). enabled_admin b" by auto
    moreover from this have "accounts ?db \<noteq> []" by (auto simp: filter_empty_conv)
    ultimately show ?thesis
      using assms by (simp add: auth_inv_def list_ex_iff distinct_map inj_on_def)
  qed
  then show ?thesis
    using assms auth_inv_revoke_subject
    by (auto simp: delete_account_def split: try_s_splits dest!: find_username)
qed

lemma auth_inv_create_account:
  assumes "auth_inv db" and "accounts db \<noteq> [] \<or> r = Admin"
  shows "auth_inv (fst (create_account env db u pw r))"
  using assms
  by (auto simp: create_account_def insert_account_def auth_inv_def enabled_admin_def
      split: try_s_splits)

lemma auth_inv_reset_password:
  "auth_inv db \<Longrightarrow> auth_inv (fst (reset_account_password env db u pw))"
  by (auto simp: reset_account_password_def enabled_admin_def split: try_s_splits
      intro!: auth_inv_update_upgrade)

text \<open>An authorized call needs a session, so the portal has been set up.\<close>

lemma require_set_up:
  assumes "auth_inv db" and "require env db act = Inr user"
  shows "accounts db \<noteq> []"
proof -
  from assms(2) have "sessions db \<noteq> []"
    by (auto simp: require_def current_user_def try_r_Inr_iff get_valid_session_def
        split: option.splits if_splits)
  with assms(1) show ?thesis by (simp add: auth_inv_def)
qed

lemma auth_inv_admin_call:
  assumes "auth_inv db" and "accounts db \<noteq> [] \<Longrightarrow> auth_inv (fst run)"
  shows "auth_inv (fst (admin_call env db checks run act kind tgt))"
  using assms require_set_up [OF assms(1)]
  by (auto simp: admin_call_def split: try_s_splits prod.splits sum.splits)

lemma auth_inv_start_session:
  assumes "auth_inv db" and "accounts db \<noteq> []"
  shows "auth_inv (fst (start_session env db u r))"
  using auth_inv_create_session [OF assms, of env "local_session env u r"]
  by (auto simp: start_session_def auth_inv_touch split: prod.splits sum.splits)

lemma auth_inv_setup:
  assumes "auth_inv db"
  shows "auth_inv (fst (setup_first_admin env db u pw))"
proof -
  have "auth_inv (fst (create_first_admin env db u pw))"
    using assms auth_inv_create_account [OF assms]
    by (auto simp: create_first_admin_def split: try_s_splits)
  moreover have "accounts db1 \<noteq> []" if "create_first_admin env db u pw = (db1, Inr a)" for db1 a
    using that
    by (auto simp: create_first_admin_def create_account_def insert_account_def
        split: try_s_splits if_splits)
  ultimately show ?thesis
    using assms
    by (auto simp: setup_first_admin_def auth_inv_start_session
        split: try_s_split prod.splits sum.splits)
qed

lemma verify_login_Some:
  assumes "verify_login env db u pw = Inr (Some a)"
  shows "a \<in> set (accounts db)" and "acc_username a = u" and "acc_enabled a"
    and "argon_verify env pw (acc_password_hash a)"
proof -
  obtain found where f: "find_account_by_username env db u = Inr found"
    using assms by (cases "find_account_by_username env db u") (simp_all add: verify_login_def)
  with assms have "found = Some a" and e: "acc_enabled a" "argon_verify env pw (acc_password_hash a)"
    by (simp_all add: verify_login_def split: option.splits if_splits)
  with f find_username [of env db u a] show "a \<in> set (accounts db)" "acc_username a = u"
    and "acc_enabled a" and "argon_verify env pw (acc_password_hash a)" by simp_all
qed

lemma auth_inv_login:
  assumes "auth_inv db"
  shows "auth_inv (fst (local_login env db u pw))"
proof -
  consider e where "verify_login env db u pw = Inl e" | "verify_login env db u pw = Inr None"
    | a where "verify_login env db u pw = Inr (Some a)"
    by (metis option.exhaust sum.exhaust)
  then show ?thesis
  proof cases
    case (3 a)
    then have "accounts db \<noteq> []" using verify_login_Some(1) by fastforce
    then have s: "auth_inv (fst (create_session env db (local_session env (acc_username a) (acc_role a))))"
      by (rule auth_inv_create_session [OF assms])
    obtain db1 r where c: "create_session env db (local_session env (acc_username a) (acc_role a)) = (db1, r)"
      by fastforce
    show ?thesis using 3 s c by (cases r) (simp_all add: local_login_def auth_inv_touch)
  qed (use assms in \<open>simp_all add: local_login_def\<close>)
qed

lemma fst_unit_result:
  "fst (case p of (db1, Inl e) \<Rightarrow> (db1, Inl e) | (db1, Inr _) \<Rightarrow> (db1, Inr ())) = fst p"
  by (auto split: prod.splits sum.splits)

lemma auth_step_inv: "auth_step db db' \<Longrightarrow> auth_inv db \<Longrightarrow> auth_inv db'"
proof (induction rule: auth_step.induct)
  case (Setup db env u pw)
  then show ?case by (rule auth_inv_setup)
next
  case (Login db env u pw)
  then show ?case by (rule auth_inv_login)
next
  case (Logout db env)
  then show ?case
    by (auto simp: logout_def Let_def auth_inv_revoke split: option.splits)
next
  case (Create db env u pw r)
  then show ?case unfolding create_local_account_def
    by (intro auth_inv_admin_call) (simp_all add: fst_unit_result auth_inv_create_account)
next
  case (SetRole db env u r)
  then show ?case unfolding set_account_role_fn_def
    by (intro auth_inv_admin_call auth_inv_set_role)
next
  case (SetEnabled db env u e)
  then show ?case unfolding set_account_enabled_fn_def
    by (intro auth_inv_admin_call auth_inv_set_enabled)
next
  case (Delete db env u)
  then show ?case unfolding delete_local_account_def
    by (intro auth_inv_admin_call auth_inv_delete)
next
  case (ResetPassword db env u pw)
  then show ?case unfolding reset_account_password_fn_def
    by (intro auth_inv_admin_call auth_inv_reset_password)
next
  case (Cleanup db env)
  then show ?case
    by (auto simp: cleanup_expired_sessions_def auth_inv_def distinct_map inj_on_def)
qed

lemma auth_inv_empty: "auth_inv empty_auth_db"
  by (simp add: auth_inv_def empty_auth_db_def)

lemma auth_reachable_inv: "auth_step\<^sup>*\<^sup>* empty_auth_db db \<Longrightarrow> auth_inv db"
  by (induction rule: rtranclp_induct) (auto intro: auth_inv_empty auth_step_inv)

section \<open>Sessions\<close>

lemma current_user_session:
  assumes "current_user env db = Inr (Some user)"
  obtains s where "s \<in> set (sessions db)" "env_cookies env = Some (Some (sess_id s))"
    "is_valid_at s (env_now env)" "cu_subject user = sess_subject s" "cu_role user = sess_role s"
proof -
  from assms obtain sid where c: "env_cookies env = Some (Some sid)"
    by (auto simp: current_user_def split: option.splits)
  with assms obtain s where g: "get_valid_session env db sid = Inr (Some s)"
    and u: "cu_subject user = sess_subject s" "cu_role user = sess_role s"
    by (cases "get_valid_session env db sid") (auto simp: current_user_def)
  from g have "List.find (\<lambda>s. sess_id s = sid) (sessions db) = Some s" "is_valid_at s (env_now env)"
    by (auto simp: get_valid_session_def split: if_splits option.splits)
  with find_SomeD [OF this(1)] c u show thesis by (intro that) auto
qed

lemma revoke_subject_none_valid:
  assumes "revoke_sessions_for_subject env db u = (db', Inr ())" and "s \<in> set (sessions db')"
    and "sess_subject s = u"
  shows "\<not> is_valid_at s t"
proof -
  let ?f = "\<lambda>s. if sess_subject s = u \<and> sess_revoked_at s = None
               then s\<lparr>sess_revoked_at := Some (env_now env)\<rparr> else s"
  from assms(1) have "db' = db\<lparr>sessions := map ?f (sessions db)\<rparr>"
    by (simp add: revoke_sessions_for_subject_def split: if_splits)
  with assms(2) have "s \<in> ?f ` set (sessions db)" by simp
  then obtain s0 where "s = ?f s0" by (rule imageE)
  then show ?thesis using assms(3) by (cases "sess_subject s0 = u \<and> sess_revoked_at s0 = None")
      (auto simp: is_valid_at_def)
qed

lemma revoke_subject_accounts [simp]:
  "accounts (fst (revoke_sessions_for_subject env db u)) = accounts db"
  by (simp add: revoke_sessions_for_subject_def)

lemma set_enabled_False:
  assumes "set_account_enabled env db u False = (db', Inr ())"
  obtains db1 where "revoke_sessions_for_subject env db1 u = (db', Inr ())"
    and "\<forall>a \<in> set (accounts db1). acc_username a = u \<longrightarrow> \<not> acc_enabled a"
proof -
  let ?f = "\<lambda>a. a\<lparr>acc_enabled := False, acc_updated_at := env_now env\<rparr>"
  from assms have t: "then_s (update_account env Q_set_enabled db u ?f)
      (\<lambda>db1 _. revoke_sessions_for_subject env db1 u) = (db', Inr ())"
    unfolding set_account_enabled_def by (simp add: try_s_Inr_iff split: if_splits) blast
  show thesis
  proof (cases "env_fails env Q_set_enabled")
    case True
    with t show thesis by (simp add: update_account_def)
  next
    case False
    with t have "revoke_sessions_for_subject env
        (db\<lparr>accounts := map (\<lambda>a. if acc_username a = u then ?f a else a) (accounts db)\<rparr>) u
        = (db', Inr ())"
      by (simp add: update_account_def)
    then show thesis by (rule that) (simp add: ball_Un)
  qed
qed

lemma verify_login_disabled:
  assumes "\<forall>a \<in> set (accounts db). acc_username a = u \<longrightarrow> \<not> acc_enabled a"
  shows "verify_login env db u pw \<noteq> Inr (Some a)"
  using assms verify_login_Some [of env db u pw a] by blast

section \<open>Properties\<close>

text \<open>\<^bold>\<open>C4.\<close> The last-administrator guard. In every state the portal reaches from an empty store by
  set-up, logins, logouts, account administration and session clean-up, whatever queries fail on
  the way, user names and session ids are unique, and once an account exists there is an enabled
  administrator.\<close>

theorem last_admin_kept:
  assumes "auth_step\<^sup>*\<^sup>* empty_auth_db db"
  shows "distinct (map acc_username (accounts db)) \<and> distinct (map sess_id (sessions db)) \<and>
         (accounts db = [] \<or> (\<exists>a \<in> set (accounts db). acc_enabled a \<and> acc_role a = Admin))"
  using auth_reachable_inv [OF assms]
  by (auto simp: auth_inv_def list_ex_iff enabled_admin_def)

definition demo_env :: auth_env where
  "demo_env = \<lparr>env_fails = (\<lambda>_. False), env_now = 1000, env_record_id = ''r1'', env_uuid = ''s1'',
     env_salt = ''salt'', env_ip = ''127.0.0.1'', env_cookies = Some None,
     argon_hash = (\<lambda>s p. Some (s @ p)), argon_parses = (\<lambda>_. True),
     argon_verify = (\<lambda>p h. h = ''salt'' @ p), password_min_length = 8\<rparr>"

definition demo_account :: account where
  "demo_account = \<lparr>acc_id = ''r1'', acc_username = ''root'', acc_password_hash = ''saltsecret123'',
     acc_role = Admin, acc_enabled = True, acc_created_at = 1000, acc_updated_at = 1000,
     acc_last_login_at = Some 1000\<rparr>"

definition demo_session :: session where
  "demo_session = local_session demo_env ''root'' Admin"

lemma demo_password: "check_password ''secret123'' 8 = Inr ()"
  by code_simp

lemma demo_setup:
  "accounts (fst (setup_first_admin demo_env empty_auth_db ''root'' ''secret123'')) = [demo_account]"
  "sessions (fst (setup_first_admin demo_env empty_auth_db ''root'' ''secret123'')) = [demo_session]"
  by (simp_all add: setup_first_admin_def demo_env_def empty_auth_db_def demo_password
      create_first_admin_def has_accounts_def count_accounts_def create_account_def
      find_account_by_username_def hash_password_def insert_account_def start_session_def
      create_session_def touch_last_login_def update_account_def demo_account_def
      demo_session_def local_session_def)

theorem last_admin_kept_witness:
  "\<exists>db. auth_step\<^sup>*\<^sup>* empty_auth_db db \<and> sessions db \<noteq> [] \<and>
     (\<exists>a \<in> set (accounts db). acc_enabled a \<and> acc_role a = Admin)"
proof -
  let ?db = "fst (setup_first_admin demo_env empty_auth_db ''root'' ''secret123'')"
  have r: "auth_step\<^sup>*\<^sup>* empty_auth_db ?db" by (intro r_into_rtranclp auth_step.Setup)
  then show ?thesis using last_admin_kept [OF r] demo_setup
    by (intro exI [of _ ?db]) simp
qed

text \<open>\<^bold>\<open>C7.\<close> The authorization gate. A server function that passes \<^verbatim>\<open>require\<close> runs for a request
  whose cookie names a stored session that is neither revoked nor expired, and the role that
  session carries is at least the minimum role of the action.\<close>

theorem require_sound:
  assumes "require env db act = Inr user"
  shows "\<exists>s \<in> set (sessions db). env_cookies env = Some (Some (sess_id s)) \<and>
           sess_revoked_at s = None \<and> env_now env < sess_expires_at s \<and>
           cu_subject user = sess_subject s \<and> cu_role user = sess_role s \<and>
           min_role act \<le> sess_role s"
proof -
  from assms have u: "current_user env db = Inr (Some user)" and "is_allowed (cu_role user) act"
    by (auto simp: require_def try_r_Inr_iff split: if_splits)
  moreover obtain s where "s \<in> set (sessions db)" "env_cookies env = Some (Some (sess_id s))"
    "is_valid_at s (env_now env)" "cu_subject user = sess_subject s" "cu_role user = sess_role s"
    using u by (rule current_user_session)
  ultimately show ?thesis by (auto simp: is_valid_at_def is_allowed_iff)
qed

definition demo_db :: auth_db where
  "demo_db = \<lparr>accounts = [demo_account, demo_account\<lparr>acc_username := ''eve''\<rparr>],
     sessions = [demo_session], audit_log = []\<rparr>"

definition demo_user :: portal_user where
  "demo_user = \<lparr>cu_subject = ''root'', cu_display_name = ''root'', cu_email = None,
     cu_role = Admin, cu_auth_method = Local\<rparr>"

lemma demo_require:
  "require (demo_env\<lparr>env_cookies := Some (Some ''s1'')\<rparr>) demo_db AdminAction = Inr demo_user"
  by (simp add: require_def current_user_def get_valid_session_def demo_env_def demo_db_def
      demo_session_def local_session_def is_valid_at_def hours_def is_allowed_iff demo_user_def)

theorem require_sound_witness:
  "\<exists>s \<in> set (sessions demo_db). sess_id s = ''s1'' \<and> sess_revoked_at s = None \<and>
     min_role AdminAction \<le> sess_role s"
  using require_sound [OF demo_require] by auto



text \<open>\<^bold>\<open>C9.\<close> A role change does not reach open sessions. Whatever role an account is set to, every
  request authenticated by an existing session is still answered with the role the session was
  opened with: the gate reads the session, not the account.\<close>

theorem set_role_keeps_session_role:
  "require env' (fst (set_account_role env db u r)) act = require env' db act"
proof -
  have "sessions (fst (set_account_role env db u r)) = sessions db"
    by (simp add: set_account_role_def set_account_role_write_def update_account_def
        split: try_s_splits)
  then have "get_valid_session env' (fst (set_account_role env db u r)) = get_valid_session env' db"
    by (simp add: get_valid_session_def fun_eq_iff)
  then have "current_user env' (fst (set_account_role env db u r)) = current_user env' db"
    by (simp add: current_user_def split: option.splits)
  then show ?thesis by (simp add: require_def)
qed

text \<open>\<^bold>\<open>C10.\<close> The last-administrator guard is not atomic. Two administrators that demote each other
  at the same time can both pass the guard, because each guard reads the store before the other's
  write: interleaving the two calls as check, check, write, write ends without an administrator.\<close>

theorem concurrent_demotion:
  "\<exists>env db db1 db2.
     auth_inv db \<and> accounts db \<noteq> [] \<and>
     set_account_role_guard env db ''root'' Viewer = Inr () \<and>
     set_account_role_guard env db ''eve'' Viewer = Inr () \<and>
     set_account_role_write env db ''root'' Viewer = (db1, Inr ()) \<and>
     set_account_role_write env db1 ''eve'' Viewer = (db2, Inr ()) \<and>
     \<not> (\<exists>a \<in> set (accounts db2). acc_enabled a \<and> acc_role a = Admin)"
proof -
  let ?w = "\<lambda>db u. fst (set_account_role_write demo_env db u Viewer)"
  have "auth_inv demo_db"
    by (simp add: auth_inv_def demo_db_def demo_account_def enabled_admin_def)
  moreover have "set_account_role_guard demo_env demo_db ''root'' Viewer = Inr ()"
    and "set_account_role_guard demo_env demo_db ''eve'' Viewer = Inr ()"
    by (simp_all add: set_account_role_guard_def find_account_by_username_def demo_env_def
        demo_db_def demo_account_def is_last_enabled_admin_def count_enabled_admins_def
        list_accounts_def)
  ultimately show ?thesis
    by (intro exI [of _ demo_env] exI [of _ demo_db] exI [of _ "?w demo_db ''root''"]
        exI [of _ "?w (?w demo_db ''root'') ''eve''"])
      (simp add: set_account_role_write_def update_account_def demo_env_def demo_db_def
        demo_account_def)
qed

end
