(* ===== verification/Rust_Net.thy ===== *)
theory Rust_Net
  imports Rust_Prelude
begin

text \<open>
  \<^verbatim>\<open>std::net\<close> as the sources use it: \<^verbatim>\<open>FromStr\<close> and \<^verbatim>\<open>Display\<close> of \<^verbatim>\<open>Ipv4Addr\<close>, \<^verbatim>\<open>FromStr\<close> of
  \<^verbatim>\<open>Ipv6Addr\<close> and \<^verbatim>\<open>IpAddr\<close>, and network masks. The readers follow the standard library's
  recursive-descent parser. The main fact is that the textual form of an IPv4 address is
  canonical: a string parses to an address exactly when it is what the address prints.
\<close>

unbundle bit_operations_syntax

section \<open>Readers\<close>

type_synonym 'a reader = "string \<Rightarrow> ('a \<times> string) option"

definition hex_val :: "char \<Rightarrow> nat" where
  "hex_val c =
     (if is_ascii_digit c then byte_of c - 48
      else if is_ascii_uppercase c then byte_of c - 55
      else byte_of c - 87)"

definition hex_value :: "string \<Rightarrow> nat" where
  "hex_value ds = foldl (\<lambda>n c. n * 16 + hex_val c) 0 ds"

text \<open>\<^verbatim>\<open>read_number(10, Some(3), false)\<close> into a \<^verbatim>\<open>u8\<close>: no leading zero, no overflow.\<close>

definition read_octet :: "nat reader" where
  "read_octet s =
     (let ds = takeWhile is_ascii_digit s
      in if ds = [] \<or> 3 < length ds \<or> 255 < dec_value ds
            \<or> (hd ds = CHR ''0'' \<and> 1 < length ds)
         then None else Some (dec_value ds, dropWhile is_ascii_digit s))"

text \<open>\<^verbatim>\<open>read_number(16, Some(4), true)\<close> into a \<^verbatim>\<open>u16\<close>.\<close>

definition read_hex16 :: "nat reader" where
  "read_hex16 s =
     (let ds = takeWhile is_ascii_hexdigit s
      in if ds = [] \<or> 4 < length ds then None
         else Some (hex_value ds, dropWhile is_ascii_hexdigit s))"

definition read_given_char :: "char \<Rightarrow> string \<Rightarrow> string option" where
  "read_given_char c s = (case s of [] \<Rightarrow> None | x # r \<Rightarrow> if x = c then Some r else None)"

definition read_separator :: "char \<Rightarrow> nat \<Rightarrow> 'a reader \<Rightarrow> 'a reader" where
  "read_separator c i p s =
     (if 0 < i then Option.bind (read_given_char c s) p else p s)"

section \<open>IPv4\<close>

type_synonym ipv4 = u32

definition octets_nat :: "nat \<Rightarrow> nat \<Rightarrow> nat \<Rightarrow> nat \<Rightarrow> nat" where
  "octets_nat a b c d = ((a * 256 + b) * 256 + c) * 256 + d"

definition ipv4_of_octets :: "nat \<Rightarrow> nat \<Rightarrow> nat \<Rightarrow> nat \<Rightarrow> ipv4" where
  "ipv4_of_octets a b c d = word_of_nat (octets_nat a b c d)"

definition ipv4_octets :: "ipv4 \<Rightarrow> nat \<times> nat \<times> nat \<times> nat" where
  "ipv4_octets w =
     (let n = unat w
      in (n div 256 div 256 div 256, n div 256 div 256 mod 256, n div 256 mod 256, n mod 256))"

definition read_ipv4_addr :: "ipv4 reader" where
  "read_ipv4_addr s =
     (case read_octet s of None \<Rightarrow> None | Some (a, s1) \<Rightarrow>
     (case read_separator CHR ''.'' 1 read_octet s1 of None \<Rightarrow> None | Some (b, s2) \<Rightarrow>
     (case read_separator CHR ''.'' 2 read_octet s2 of None \<Rightarrow> None | Some (c, s3) \<Rightarrow>
     (case read_separator CHR ''.'' 3 read_octet s3 of None \<Rightarrow> None | Some (d, s4) \<Rightarrow>
        Some (ipv4_of_octets a b c d, s4)))))"

definition parse_ipv4 :: "string \<Rightarrow> ipv4 option" where
  "parse_ipv4 s =
     (if 15 < length s then None
      else (case read_ipv4_addr s of
          Some (w, r) \<Rightarrow> if r = [] then Some w else None
        | None \<Rightarrow> None))"

definition show_ipv4 :: "ipv4 \<Rightarrow> string" where
  "show_ipv4 w =
     (case ipv4_octets w of (a, b, c, d) \<Rightarrow>
        show_nat a @ CHR ''.'' # show_nat b @ CHR ''.'' # show_nat c @ CHR ''.'' # show_nat d)"

definition ipv4_unspecified :: ipv4 where
  "ipv4_unspecified = 0"

section \<open>IPv6\<close>

type_synonym ipv6 = u128

fun read_groups :: "nat \<Rightarrow> nat \<Rightarrow> string \<Rightarrow> nat list \<times> bool \<times> string" where
  "read_groups 0 i s = ([], False, s)"
| "read_groups (Suc k) i s =
     (case (if 0 < k then read_separator CHR '':'' i read_ipv4_addr s else None) of
        Some (w, r) \<Rightarrow> ([unat w div 65536, unat w mod 65536], True, r)
      | None \<Rightarrow>
          (case read_separator CHR '':'' i read_hex16 s of
             None \<Rightarrow> ([], False, s)
           | Some (g, r) \<Rightarrow>
               (case read_groups k (Suc i) r of (gs, v4, r') \<Rightarrow> (g # gs, v4, r'))))"

definition ipv6_of_groups :: "nat list \<Rightarrow> ipv6" where
  "ipv6_of_groups gs = word_of_nat (foldl (\<lambda>n g. n * 65536 + g) 0 gs)"

definition read_ipv6_addr :: "ipv6 reader" where
  "read_ipv6_addr s =
     (case read_groups 8 0 s of (hd_gs, v4, r) \<Rightarrow>
        if length hd_gs = 8 then Some (ipv6_of_groups hd_gs, r)
        else if v4 then None
        else (case Option.bind (read_given_char CHR '':'' r) (read_given_char CHR '':'') of
            None \<Rightarrow> None
          | Some r1 \<Rightarrow>
              (case read_groups (8 - (length hd_gs + 1)) 0 r1 of (tl_gs, _, r2) \<Rightarrow>
                 Some (ipv6_of_groups
                         (hd_gs @ replicate (8 - length hd_gs - length tl_gs) 0 @ tl_gs), r2))))"

definition parse_ipv6 :: "string \<Rightarrow> ipv6 option" where
  "parse_ipv6 s =
     (case read_ipv6_addr s of Some (w, r) \<Rightarrow> if r = [] then Some w else None | None \<Rightarrow> None)"

text \<open>Printing: the first longest run of at least two zero groups is \<^verbatim>\<open>::\<close>; a mapped IPv4 address keeps its dots.\<close>

definition ipv6_groups :: "ipv6 \<Rightarrow> nat list" where
  "ipv6_groups w = map (\<lambda>k. unat (ucast (drop_bit (16 * k) w) :: u16)) (rev [0 ..< 8])"

function show_hex :: "nat \<Rightarrow> string" where
  "show_hex n = (if n < 16 then [''0123456789abcdef'' ! n] else show_hex (n div 16) @ [''0123456789abcdef'' ! (n mod 16)])"
  by pat_completeness auto
termination
  by (relation "measure id") auto

declare show_hex.simps [simp del]

fun join_colon :: "nat list \<Rightarrow> string" where
  "join_colon [] = []"
| "join_colon [g] = show_hex g"
| "join_colon (g # gs) = show_hex g @ CHR '':'' # join_colon gs"

fun longest_zeroes :: "nat \<Rightarrow> nat list \<Rightarrow> nat \<times> nat \<Rightarrow> nat \<times> nat \<Rightarrow> nat \<times> nat" where
  "longest_zeroes i [] current longest = longest"
| "longest_zeroes i (g # gs) (start, len) longest =
     (if g = 0
      then (let current = (if len = 0 then i else start, len + 1) in
            longest_zeroes (Suc i) gs current (if snd longest < snd current then current else longest))
      else longest_zeroes (Suc i) gs (0, 0) longest)"

definition show_ipv6 :: "ipv6 \<Rightarrow> string" where
  "show_ipv6 w =
     (let gs = ipv6_groups w in
      if take 6 gs = [0, 0, 0, 0, 0, 65535] then ''::ffff:'' @ show_ipv4 (ucast w)
      else (case longest_zeroes 0 gs (0, 0) (0, 0) of
              (start, len) \<Rightarrow>
                if 1 < len then join_colon (take start gs) @ ''::'' @ join_colon (drop (start + len) gs)
                else join_colon gs))"

section \<open>Either family\<close>

datatype ip_addr = V4 ipv4 | V6 ipv6

definition parse_ip :: "string \<Rightarrow> ip_addr option" where
  "parse_ip s =
     (case read_ipv4_addr s of
        Some (w, r) \<Rightarrow> if r = [] then Some (V4 w) else None
      | None \<Rightarrow>
          (case read_ipv6_addr s of
             Some (w, r) \<Rightarrow> if r = [] then Some (V6 w) else None
           | None \<Rightarrow> None))"

section \<open>Masks\<close>

text \<open>\<^verbatim>\<open>if prefix == 0 { 0 } else { MAX << (w - prefix) }\<close>\<close>

definition prefix_mask :: "nat \<Rightarrow> 'a :: len word" where
  "prefix_mask p = (if p = 0 then 0 else push_bit (LENGTH('a) - p) (- 1))"

definition same_network :: "nat \<Rightarrow> 'a :: len word \<Rightarrow> 'a word \<Rightarrow> bool" where
  "same_network p n a \<longleftrightarrow> n AND prefix_mask p = a AND prefix_mask p"

section \<open>The printed form of an IPv4 address\<close>

lemma length_show_octet:
  assumes "n < 256"
  shows "length (show_nat n) \<le> 3"
proof -
  have a: "n < 10 \<Longrightarrow> length (show_nat n) = 1" for n
    by (subst show_nat.simps) simp
  have b: "n < 100 \<Longrightarrow> length (show_nat n) \<le> 2" for n
    using a [of "n div 10"] by (subst show_nat.simps) auto
  have "length (show_nat (n div 10)) \<le> 2"
    using assms by (intro b) simp
  then show ?thesis by (subst show_nat.simps) auto
qed

lemma read_octet_show:
  assumes "n < 256" and "r = [] \<or> \<not> is_ascii_digit (hd r)"
  shows "read_octet (show_nat n @ r) = Some (n, r)"
proof -
  have digs: "\<And>x. x \<in> set (show_nat n) \<Longrightarrow> is_ascii_digit x"
    using show_nat_digits [of n] by (simp add: list_all_iff)
  have tw: "takeWhile is_ascii_digit (show_nat n @ r) = show_nat n"
    using digs assms(2) by (cases r) (auto simp: takeWhile_append)
  have dw: "dropWhile is_ascii_digit (show_nat n @ r) = r"
    using digs assms(2) by (cases r) (auto simp: dropWhile_append)
  note len = length_show_octet [OF assms(1)]
  have zero: "\<not> (hd (show_nat n) = CHR ''0'' \<and> 1 < length (show_nat n))"
  proof (cases "n = 0")
    case True
    then show ?thesis by (simp add: show_nat.simps)
  next
    case False
    then show ?thesis using show_nat_no_leading_zero [of n] by simp
  qed
  from assms(1) tw dw len zero show ?thesis
    by (auto simp: read_octet_def Let_def)
qed

lemma read_octet_Some:
  assumes "read_octet s = Some (n, r)"
  shows "s = show_nat n @ r" and "n < 256"
proof -
  let ?ds = "takeWhile is_ascii_digit s"
  from assms have ds: "?ds \<noteq> []" "dec_value ?ds \<le> 255"
      "hd ?ds = CHR ''0'' \<longrightarrow> length ?ds \<le> 1"
    and n: "n = dec_value ?ds" and r: "r = dropWhile is_ascii_digit s"
    by (auto simp: read_octet_def Let_def split: if_splits)
  have "list_all is_ascii_digit ?ds"
    by (auto simp: list_all_iff dest: set_takeWhileD)
  moreover have "length ?ds = 1 \<or> hd ?ds \<noteq> CHR ''0''"
    using ds(1,3) by (cases ?ds) auto
  ultimately have "show_nat n = ?ds"
    using show_nat_dec_value [OF ds(1)] n by simp
  then show "s = show_nat n @ r"
    using r by simp
  from n ds(2) show "n < 256" by simp
qed

lemma read_separator_octet_Some:
  assumes "read_separator CHR ''.'' (Suc i) read_octet s = Some (n, r)"
  shows "s = CHR ''.'' # show_nat n @ r" and "n < 256"
  using assms
  by (auto simp: read_separator_def read_given_char_def bind_eq_Some_conv
      split: list.splits if_splits dest: read_octet_Some)

lemma dot_not_digit [simp]: "\<not> is_ascii_digit CHR ''.''"
  by (simp add: is_ascii_digit_def byte_of_def)

lemma octets_bounds:
  assumes "ipv4_octets w = (a, b, c, d)"
  shows "a < 256" "b < 256" "c < 256" "d < 256"
proof -
  have "unat w < 2 ^ 32" using unsigned_less [of w] by simp
  then have "unat w < 4294967296" by simp
  then have "unat w div 256 div 256 div 256 < 256" by (simp add: div_less_iff_less_mult)
  with assms show "a < 256" "b < 256" "c < 256" "d < 256"
    by (auto simp: ipv4_octets_def Let_def)
qed

lemma octets_of_octets:
  assumes "a < 256" "b < 256" "c < 256" "d < 256"
  shows "ipv4_octets (ipv4_of_octets a b c d) = (a, b, c, d)"
proof -
  let ?n = "octets_nat a b c d"
  have "?n < 4294967296"
  proof -
    from assms have "a \<le> 255" "b \<le> 255" "c \<le> 255" "d \<le> 255" by simp_all
    then have "octets_nat a b c d \<le> octets_nat 255 255 255 255"
      unfolding octets_nat_def by (intro add_mono mult_mono) simp_all
    then show ?thesis by (simp add: octets_nat_def)
  qed
  then have u: "unat (ipv4_of_octets a b c d) = ?n"
    by (simp add: ipv4_of_octets_def unsigned_of_nat take_bit_nat_eq_self)
  have horner: "(x * 256 + y) mod 256 = y" "(x * 256 + y) div 256 = x" if "y < 256" for x y :: nat
    using that by simp_all
  have "?n mod 256 = d" and q1: "?n div 256 = (a * 256 + b) * 256 + c"
    unfolding octets_nat_def using assms by (rule_tac horner, simp)+
  moreover have "?n div 256 mod 256 = c" and q2: "?n div 256 div 256 = a * 256 + b"
    unfolding q1 using assms by (rule_tac horner, simp)+
  moreover have "?n div 256 div 256 mod 256 = b" and "?n div 256 div 256 div 256 = a"
    unfolding q2 using assms by (rule_tac horner, simp)+
  ultimately show ?thesis by (simp only: ipv4_octets_def u Let_def)
qed

lemma of_octets_octets:
  assumes "ipv4_octets w = (a, b, c, d)"
  shows "ipv4_of_octets a b c d = w"
proof -
  have "octets_nat a b c d = unat w"
    using assms unfolding ipv4_octets_def octets_nat_def Let_def
    by (metis div_mult_mod_eq prod.inject)
  then show ?thesis by (simp add: ipv4_of_octets_def)
qed

lemma read_ipv4_addr_show: "read_ipv4_addr (show_ipv4 w) = Some (w, [])"
proof -
  obtain a b c d where o: "ipv4_octets w = (a, b, c, d)" by (cases "ipv4_octets w") auto
  note bs = octets_bounds [OF o]
  show ?thesis
    using bs of_octets_octets [OF o]
    by (simp add: show_ipv4_def o read_ipv4_addr_def read_octet_show read_separator_def
        read_given_char_def) (simp add: read_octet_show [where r = "[]", simplified])
qed

lemma read_ipv4_addr_Some:
  assumes "read_ipv4_addr s = Some (w, r)"
  shows "s = show_ipv4 w @ r"
proof -
  from assms obtain a s1 b s2 c s3 d
    where r1: "read_octet s = Some (a, s1)"
      and r2: "read_separator CHR ''.'' (Suc 0) read_octet s1 = Some (b, s2)"
      and r3: "read_separator CHR ''.'' (Suc 1) read_octet s2 = Some (c, s3)"
      and r4: "read_separator CHR ''.'' (Suc 2) read_octet s3 = Some (d, r)"
      and w: "w = ipv4_of_octets a b c d"
    by (auto simp: read_ipv4_addr_def numeral_2_eq_2 numeral_3_eq_3 split: option.splits)
  note f1 = read_octet_Some [OF r1]
  note f2 = read_separator_octet_Some [OF r2]
  note f3 = read_separator_octet_Some [OF r3]
  note f4 = read_separator_octet_Some [OF r4]
  have "ipv4_octets w = (a, b, c, d)"
    unfolding w using f1(2) f2(2) f3(2) f4(2) by (rule octets_of_octets)
  then show ?thesis
    using f1(1) f2(1) f3(1) f4(1) by (simp add: show_ipv4_def)
qed


lemma length_show_ipv4: "length (show_ipv4 w) \<le> 15"
proof -
  obtain a b c d where o: "ipv4_octets w = (a, b, c, d)" by (cases "ipv4_octets w") auto
  note bs = octets_bounds [OF o, THEN length_show_octet]
  from bs show ?thesis by (simp add: show_ipv4_def o)
qed

lemma parse_show_ipv4 [simp]: "parse_ipv4 (show_ipv4 w) = Some w"
  using length_show_ipv4 [of w] by (simp add: parse_ipv4_def read_ipv4_addr_show)

lemma parse_ipv4_Some_iff: "parse_ipv4 s = Some w \<longleftrightarrow> s = show_ipv4 w"
proof
  assume "parse_ipv4 s = Some w"
  then have "read_ipv4_addr s = Some (w, [])"
    by (auto simp: parse_ipv4_def split: if_splits option.splits)
  then show "s = show_ipv4 w" using read_ipv4_addr_Some by fastforce
qed simp

lemma show_ipv4_inj [simp]: "show_ipv4 a = show_ipv4 b \<longleftrightarrow> a = b"
  by (metis option.inject parse_show_ipv4)

lemma parse_ip_V4_iff: "parse_ip s = Some (V4 w) \<longleftrightarrow> parse_ipv4 s = Some w"
proof
  assume "parse_ip s = Some (V4 w)"
  then have "read_ipv4_addr s = Some (w, [])"
    by (auto simp: parse_ip_def split: option.splits if_splits)
  then have "s = show_ipv4 w" using read_ipv4_addr_Some by fastforce
  then show "parse_ipv4 s = Some w" by simp
next
  assume "parse_ipv4 s = Some w"
  then have "s = show_ipv4 w" by (simp add: parse_ipv4_Some_iff)
  then show "parse_ip s = Some (V4 w)"
    by (simp add: parse_ip_def read_ipv4_addr_show)
qed

section \<open>Masks and prefixes\<close>

lemma bit_prefix_mask:
  "p \<le> LENGTH('a) \<Longrightarrow>
     bit (prefix_mask p :: 'a :: len word) i \<longleftrightarrow> LENGTH('a) - p \<le> i \<and> i < LENGTH('a)"
  by (simp add: prefix_mask_def bit_not_iff bit_mask_iff) (metis not_less)

text \<open>
  Two addresses are in the same network of prefix length \<open>p\<close> exactly when their first \<open>p\<close>
  bits, the value shifted down by the host bits, agree.
\<close>

lemma same_network_iff_drop_bit:
  fixes n a :: "'a :: len word"
  assumes "p \<le> LENGTH('a)"
  shows "same_network p n a \<longleftrightarrow> drop_bit (LENGTH('a) - p) n = drop_bit (LENGTH('a) - p) a"
proof
  assume h: "same_network p n a"
  show "drop_bit (LENGTH('a) - p) n = drop_bit (LENGTH('a) - p) a"
  proof (rule bit_word_eqI)
    fix i :: nat
    let ?j = "LENGTH('a) - p + i"
    have "bit (n AND prefix_mask p) ?j = bit (a AND prefix_mask p) ?j"
      using h by (simp add: same_network_def)
    then show "bit (drop_bit (LENGTH('a) - p) n) i = bit (drop_bit (LENGTH('a) - p) a) i"
      using assms bit_imp_le_length [of n ?j] bit_imp_le_length [of a ?j]
      by (auto simp: bit_drop_bit_eq bit_and_iff bit_prefix_mask)
  qed
next
  assume h: "drop_bit (LENGTH('a) - p) n = drop_bit (LENGTH('a) - p) a"
  have "n AND prefix_mask p = a AND prefix_mask p"
  proof (rule bit_word_eqI)
    fix i
    assume i: "i < LENGTH('a)"
    show "bit (n AND prefix_mask p) i = bit (a AND prefix_mask p) i"
    proof (cases "LENGTH('a) - p \<le> i")
      case True
      from h have "bit (drop_bit (LENGTH('a) - p) n) (i - (LENGTH('a) - p))
          = bit (drop_bit (LENGTH('a) - p) a) (i - (LENGTH('a) - p))"
        by simp
      with True show ?thesis
        by (simp add: bit_drop_bit_eq bit_and_iff)
    next
      case False
      with assms show ?thesis by (simp add: bit_and_iff bit_prefix_mask)
    qed
  qed
  then show "same_network p n a" by (simp add: same_network_def)
qed

lemma same_network_iff_div:
  fixes n a :: "'a :: len word"
  assumes "p \<le> LENGTH('a)"
  shows "same_network p n a
     \<longleftrightarrow> unat n div 2 ^ (LENGTH('a) - p) = unat a div 2 ^ (LENGTH('a) - p)"
  unfolding same_network_iff_drop_bit [OF assms] word_unat_eq_iff unat_drop_bit_eq
    drop_bit_eq_div [where ?'a = nat] ..

lemma same_network_refl [simp]: "same_network p n n"
  by (simp add: same_network_def)

lemma same_network_full: "same_network (LENGTH('a)) n a \<longleftrightarrow> n = (a :: 'a :: len word)"
  by (simp add: same_network_iff_drop_bit)

text \<open>Evaluation of the IPv4 reader on literals.\<close>

lemmas parse_ipv4_eval = parse_ipv4_def read_ipv4_addr_def read_separator_def read_given_char_def
  read_octet_def Let_def dec_value_def digit_val_def ascii_defs ipv4_of_octets_def octets_nat_def

end
