(* ===== verification/Dhcp_Model.thy ===== *)
theory Dhcp_Model
  imports Rust_Net
begin

text \<open>
  The DHCP data and its write-time validation: \<^verbatim>\<open>magnetite-core/src/domains/dhcp/model.rs\<close> (pools,
  reservations, leases, the server configuration) and \<^verbatim>\<open>validate.rs\<close> beside it. The lemmas say
  when a pool passes, that MAC normalisation is canonical, and what the two address families
  contribute.
\<close>

named_theorems dhcp_defs "definitions of the DHCP model, for evaluation"

section \<open>Data\<close>

record pool =
  pool_id :: string
  pool_created_at :: time
  pool_updated_at :: time
  pool_created_by :: string
  pool_name :: string
  subnet_v4 :: "string option"
  range_start_v4 :: "string option"
  range_end_v4 :: "string option"
  subnet_v6 :: "string option"
  range_start_v6 :: "string option"
  range_end_v6 :: "string option"
  gateway :: "string option"
  dns_servers :: "string list"
  domain_name :: "string option"
  lease_duration_secs :: "u32 option"
  pool_enabled :: bool

record reservation =
  res_id :: string
  res_created_at :: time
  res_updated_at :: time
  res_created_by :: string
  res_pool_ref :: string
  res_mac_address :: string
  res_ip_address :: string
  res_hostname :: "string option"
  res_description :: "string option"

datatype lease_state = Active | Offered | Expired | Released

datatype proto_ver = ProtoV4 | ProtoV6

record lease =
  lease_id :: string
  lease_created_at :: time
  lease_updated_at :: time
  lease_created_by :: string
  lease_pool_ref :: string
  lease_ip_address :: string
  lease_mac_address :: "string option"
  lease_client_id :: "string option"
  lease_hostname :: "string option"
  lease_st :: lease_state
  lease_start :: time
  lease_expiry :: time
  last_renewal :: "time option"
  protocol_version :: proto_ver

record dhcp_config =
  v4_enabled :: bool
  v6_enabled :: bool
  default_lease_secs :: u32
  max_lease_secs :: "u32 option"
  default_dns_servers :: "string list"
  default_domain_name :: "string option"
  authoritative :: bool

definition default_dhcp_config :: dhcp_config where
  "default_dhcp_config = \<lparr>
     v4_enabled = True, v6_enabled = False, default_lease_secs = 86400,
     max_lease_secs = None, default_dns_servers = [], default_domain_name = None,
     authoritative = True \<rparr>"

fun lease_state_as_str :: "lease_state \<Rightarrow> string" where
  "lease_state_as_str Active = ''active''"
| "lease_state_as_str Offered = ''offered''"
| "lease_state_as_str Expired = ''expired''"
| "lease_state_as_str Released = ''released''"

definition lease_state_from_str :: "string \<Rightarrow> lease_state option" where
  "lease_state_from_str v =
     (if v = ''active'' then Some Active
      else if v = ''offered'' then Some Offered
      else if v = ''expired'' then Some Expired
      else if v = ''released'' then Some Released
      else None)"

fun is_releasable :: "lease_state \<Rightarrow> bool" where
  "is_releasable Active = True"
| "is_releasable Offered = True"
| "is_releasable Expired = False"
| "is_releasable Released = False"

definition is_active_at :: "lease \<Rightarrow> time \<Rightarrow> bool" where
  "is_active_at l now \<longleftrightarrow> lease_st l = Active \<and> now < lease_expiry l"

section \<open>Validation\<close>

text \<open>The confirmed messages, by the name of their constant.\<close>

datatype dhcp_msg =
  MSG_NAME | MSG_IP | MSG_RANGE_ORDER | MSG_OVERLAP | MSG_CIDR | MSG_LEASE_SECS | MSG_NO_RANGE
| MSG_MAC | MSG_RESERVATION_RANGE

definition is_mac_separator :: "char \<Rightarrow> bool" where
  "is_mac_separator c \<longleftrightarrow> c = CHR '':'' \<or> c = CHR ''-'' \<or> c = CHR ''.''"

fun pairs_of :: "string \<Rightarrow> string list" where
  "pairs_of (a # b # r) = [a, b] # pairs_of r"
| "pairs_of _ = []"

definition normalize_mac :: "string \<Rightarrow> string option" where
  "normalize_mac mac =
     (let hex = filter (\<lambda>c. \<not> is_mac_separator c) mac
      in if length hex \<noteq> 12 \<or> \<not> list_all is_ascii_hexdigit hex then None
         else Some (join_with CHR '':'' (pairs_of (to_ascii_lowercase hex))))"

definition is_ip :: "string \<Rightarrow> bool" where
  "is_ip v \<longleftrightarrow> parse_ipv4 v \<noteq> None \<or> parse_ipv6 v \<noteq> None"

definition is_cidr :: "string \<Rightarrow> bool" where
  "is_cidr v =
     (case split_once CHR ''/'' v of
        None \<Rightarrow> False
      | Some (addr, pfx) \<Rightarrow>
          (case parse_uint (2 ^ 32 - 1) pfx of
             None \<Rightarrow> False
           | Some p \<Rightarrow>
               if parse_ipv4 addr \<noteq> None then p \<le> 32
               else if parse_ipv6 addr \<noteq> None then p \<le> 128
               else False))"

definition v4_range :: "pool \<Rightarrow> (u32 \<times> u32) option" where
  "v4_range p =
     (case Option.bind (range_start_v4 p) parse_ipv4 of
        None \<Rightarrow> None
      | Some s \<Rightarrow>
          (case Option.bind (range_end_v4 p) parse_ipv4 of
             None \<Rightarrow> None
           | Some e \<Rightarrow> Some (s, e)))"

definition v6_range :: "pool \<Rightarrow> (u128 \<times> u128) option" where
  "v6_range p =
     (case Option.bind (range_start_v6 p) parse_ipv6 of
        None \<Rightarrow> None
      | Some s \<Rightarrow>
          (case Option.bind (range_end_v6 p) parse_ipv6 of
             None \<Rightarrow> None
           | Some e \<Rightarrow> Some (s, e)))"

definition intervals_overlap :: "'a :: linorder \<times> 'a \<Rightarrow> 'a \<times> 'a \<Rightarrow> bool" where
  "intervals_overlap a b \<longleftrightarrow> fst a \<le> snd b \<and> fst b \<le> snd a"

text \<open>\<^verbatim>\<open>as_deref().filter(|s| !s.is_empty())\<close>\<close>

definition nonempty :: "string option \<Rightarrow> string option" where
  "nonempty s = (case s of None \<Rightarrow> None | Some v \<Rightarrow> if v = [] then None else Some v)"

definition check_family :: "string option \<Rightarrow> string option \<Rightarrow> dhcp_msg + unit" where
  "check_family st en =
     (case (nonempty st, nonempty en) of
        (None, None) \<Rightarrow> Inr ()
      | (Some _, None) \<Rightarrow> Inl MSG_IP
      | (None, Some _) \<Rightarrow> Inl MSG_IP
      | (Some s, Some e) \<Rightarrow>
          (case (parse_ipv4 s, parse_ipv4 e) of
             (Some s4, Some e4) \<Rightarrow> if s4 \<le> e4 then Inr () else Inl MSG_RANGE_ORDER
           | _ \<Rightarrow>
               (case (parse_ipv6 s, parse_ipv6 e) of
                  (Some s6, Some e6) \<Rightarrow> if s6 \<le> e6 then Inr () else Inl MSG_RANGE_ORDER
                | _ \<Rightarrow> Inl MSG_IP)))"

definition bad_cidr :: "string option \<Rightarrow> bool" where
  "bad_cidr s = (case nonempty s of None \<Rightarrow> False | Some c \<Rightarrow> \<not> is_cidr c)"

definition check_pool :: "pool \<Rightarrow> dhcp_msg + unit" where
  "check_pool p =
     (if trim (pool_name p) = [] then Inl MSG_NAME
      else if bad_cidr (subnet_v4 p) then Inl MSG_CIDR
      else if bad_cidr (subnet_v6 p) then Inl MSG_CIDR
      else (case check_family (range_start_v4 p) (range_end_v4 p) of
          Inl m \<Rightarrow> Inl m
        | Inr _ \<Rightarrow>
            (case check_family (range_start_v6 p) (range_end_v6 p) of
               Inl m \<Rightarrow> Inl m
             | Inr _ \<Rightarrow>
                 if v4_range p = None \<and> v6_range p = None then Inl MSG_NO_RANGE
                 else if (case nonempty (gateway p) of None \<Rightarrow> False | Some g \<Rightarrow> \<not> is_ip g)
                 then Inl MSG_IP
                 else if list_ex (\<lambda>s. s \<noteq> [] \<and> \<not> is_ip s) (dns_servers p) then Inl MSG_IP
                 else if lease_duration_secs p = Some 0 then Inl MSG_LEASE_SECS
                 else Inr ())))"

definition check_reservation_fields :: "string \<Rightarrow> string \<Rightarrow> dhcp_msg + unit" where
  "check_reservation_fields mac ip =
     (if normalize_mac mac = None then Inl MSG_MAC
      else if \<not> is_ip ip then Inl MSG_IP
      else Inr ())"

definition ip_in_pool_v4 :: "pool \<Rightarrow> string \<Rightarrow> bool" where
  "ip_in_pool_v4 p ip =
     (case (parse_ipv4 ip, v4_range p) of
        (Some n, Some (s, e)) \<Rightarrow> s \<le> n \<and> n \<le> e
      | _ \<Rightarrow> False)"

section \<open>Lemmas\<close>

lemma lease_state_roundtrip [simp]:
  "lease_state_from_str (lease_state_as_str s) = Some s"
  by (cases s) (simp_all add: lease_state_from_str_def)

lemma v4_range_Some_iff:
  "v4_range p = Some (s, e) \<longleftrightarrow>
     range_start_v4 p = Some (show_ipv4 s) \<and> range_end_v4 p = Some (show_ipv4 e)"
  by (auto simp: v4_range_def bind_eq_Some_conv parse_ipv4_Some_iff split: option.splits)

lemma intervals_overlap_iff:
  assumes "fst a \<le> snd a" and "fst b \<le> snd b"
  shows "intervals_overlap a b \<longleftrightarrow> {fst a..snd a} \<inter> {fst b..snd b} \<noteq> {}"
proof
  assume o: "intervals_overlap a b"
  have "max (fst a) (fst b) \<in> {fst a..snd a} \<inter> {fst b..snd b}"
    using o assms by (auto simp: intervals_overlap_def max_def)
  then show "{fst a..snd a} \<inter> {fst b..snd b} \<noteq> {}" by blast
next
  assume "{fst a..snd a} \<inter> {fst b..snd b} \<noteq> {}"
  then show "intervals_overlap a b" by (auto simp: intervals_overlap_def)
qed

lemma intervals_overlap_sym: "intervals_overlap a b \<longleftrightarrow> intervals_overlap b a"
  by (auto simp: intervals_overlap_def)

text \<open>No string is an address of both families.\<close>

lemma parse_ipv6_of_ipv4: "parse_ipv4 s = Some w \<Longrightarrow> parse_ipv6 s = None"
proof -
  assume "parse_ipv4 s = Some w"
  then have "read_ipv4_addr s = Some (w, [])"
    by (simp add: parse_ipv4_Some_iff read_ipv4_addr_show)
  then have "read_groups 8 0 s = ([unat w div 65536, unat w mod 65536], True, [])"
    using read_groups.simps(2) [of 7 0 s] by (simp add: read_separator_def)
  then have "read_ipv6_addr s = None"
    by (simp add: read_ipv6_addr_def)
  then show ?thesis by (simp add: parse_ipv6_def)
qed

lemma show_ipv4_nonempty [simp]: "show_ipv4 w \<noteq> []"
  by (simp add: show_ipv4_def split: prod.splits)

lemma parse_ipv6_Nil: "parse_ipv6 [] = None"
  by code_simp

lemma check_family_v4:
  assumes "check_family (Some (show_ipv4 s)) (Some (show_ipv4 e)) = Inr ()"
  shows "s \<le> e"
  using assms by (simp add: check_family_def nonempty_def split: if_splits)

lemma check_family_v6:
  assumes "check_family (Some a) (Some b) = Inr ()"
    and "parse_ipv6 a = Some s" and "parse_ipv6 b = Some e"
  shows "s \<le> e"
proof -
  from assms(2,3) have "a \<noteq> []" "b \<noteq> []" by (auto simp: parse_ipv6_Nil)
  moreover from assms(2,3) have "parse_ipv4 a = None" "parse_ipv4 b = None"
    using parse_ipv6_of_ipv4 by (metis option.distinct(1) option.exhaust)+
  ultimately show ?thesis
    using assms by (simp add: check_family_def nonempty_def split: if_splits)
qed

lemma check_pool_Inr_parts:
  assumes "check_pool p = Inr ()"
  shows "trim (pool_name p) \<noteq> []"
    and "check_family (range_start_v4 p) (range_end_v4 p) = Inr ()"
    and "check_family (range_start_v6 p) (range_end_v6 p) = Inr ()"
    and "v4_range p \<noteq> None \<or> v6_range p \<noteq> None"
    and "\<forall>d \<in> set (dns_servers p). d = [] \<or> is_ip d"
    and "lease_duration_secs p \<noteq> Some 0"
  using assms by (auto simp: check_pool_def list_ex_iff split: if_splits sum.splits)

lemma check_pool_v4_order:
  "check_pool p = Inr () \<Longrightarrow> v4_range p = Some (s, e) \<Longrightarrow> s \<le> e"
  using check_pool_Inr_parts(2) [of p] by (auto simp: v4_range_Some_iff intro: check_family_v4)

lemma check_pool_v6_order:
  "check_pool p = Inr () \<Longrightarrow> v6_range p = Some (s, e) \<Longrightarrow> s \<le> e"
  using check_pool_Inr_parts(3) [of p]
  by (auto simp: v6_range_def bind_eq_Some_conv split: option.splits intro: check_family_v6)

subsection \<open>MAC addresses\<close>

lemma hexdigit_not_separator: "is_ascii_hexdigit c \<Longrightarrow> \<not> is_mac_separator c"
  by (auto simp: is_mac_separator_def is_ascii_hexdigit_def is_ascii_digit_def byte_of_def)

lemma filter_join_pairs:
  assumes "\<forall>w \<in> set ws. \<forall>c \<in> set w. \<not> is_mac_separator c"
  shows "filter (\<lambda>c. \<not> is_mac_separator c) (join_with CHR '':'' ws) = concat ws"
  using assms
proof (induction "CHR '':''" ws rule: join_with.induct)
  case 1
  then show ?case by simp
next
  case (2 w)
  then show ?case by simp
next
  case (3 w v ws)
  moreover have "filter (\<lambda>c. \<not> is_mac_separator c) w = w"
    using 3 by simp
  ultimately show ?case by (simp add: is_mac_separator_def)
qed

lemma concat_pairs_of: "even (length s) \<Longrightarrow> concat (pairs_of s) = s"
  by (induction s rule: pairs_of.induct) auto

lemma set_pairs_of: "w \<in> set (pairs_of s) \<Longrightarrow> set w \<subseteq> set s"
  by (induction s rule: pairs_of.induct) auto

text \<open>The hexadecimal digits of a MAC address, lower case: what normalisation depends on.\<close>

definition mac_hex :: "string \<Rightarrow> string" where
  "mac_hex m = to_ascii_lowercase (filter (\<lambda>c. \<not> is_mac_separator c) m)"

lemma normalize_mac_eq:
  "normalize_mac m =
     (if length (mac_hex m) = 12 \<and> list_all is_ascii_hexdigit (mac_hex m)
      then Some (join_with CHR '':'' (pairs_of (mac_hex m))) else None)"
  by (auto simp: normalize_mac_def mac_hex_def Let_def to_ascii_lowercase_def list_all_iff)

lemma mac_hex_join:
  assumes "length h = 12" and "list_all is_ascii_hexdigit h" and "to_ascii_lowercase h = h"
  shows "mac_hex (join_with CHR '':'' (pairs_of h)) = h"
proof -
  have "\<forall>w \<in> set (pairs_of h). \<forall>c \<in> set w. \<not> is_mac_separator c"
    using assms(2) set_pairs_of hexdigit_not_separator by (fastforce simp: list_all_iff)
  then have "filter (\<lambda>c. \<not> is_mac_separator c) (join_with CHR '':'' (pairs_of h)) = h"
    using assms(1) by (simp add: filter_join_pairs concat_pairs_of)
  then show ?thesis using assms(3) by (simp add: mac_hex_def)
qed

lemma normalize_mac_idem: "normalize_mac m = Some n \<Longrightarrow> normalize_mac n = Some n"
proof -
  assume "normalize_mac m = Some n"
  then have h: "length (mac_hex m) = 12" "list_all is_ascii_hexdigit (mac_hex m)"
    and n: "n = join_with CHR '':'' (pairs_of (mac_hex m))"
    by (auto simp: normalize_mac_eq split: if_splits)
  have "mac_hex n = mac_hex m"
    unfolding n using h by (rule mac_hex_join) (simp add: mac_hex_def)
  with h n show ?thesis by (simp add: normalize_mac_eq)
qed

lemma normalize_mac_inj:
  assumes "normalize_mac a = Some x" and "normalize_mac b = Some x"
  shows "mac_hex a = mac_hex b"
proof -
  have "mac_hex x = mac_hex m" if "normalize_mac m = Some x" for m
    using that mac_hex_join [of "mac_hex m"]
    by (auto simp: normalize_mac_eq mac_hex_def split: if_splits)
  from this [OF assms(1)] this [OF assms(2)] show ?thesis by simp
qed

lemma lower_char_eq_separator: "is_mac_separator (lower_char c) \<longleftrightarrow> is_mac_separator c"
proof -
  have "lower_char c = s \<longleftrightarrow> c = s" if "byte_of s < 65" for s
  proof
    assume "lower_char c = s"
    then have "byte_of (lower_char c) < 65" using that by simp
    then have "\<not> is_ascii_uppercase c" by (auto simp: byte_of_lower is_ascii_uppercase_def split: if_splits)
    then show "c = s" using \<open>lower_char c = s\<close> by (simp add: lower_char_def)
  next
    assume "c = s"
    then show "lower_char c = s" using that by (simp add: lower_char_def is_ascii_uppercase_def)
  qed
  then show ?thesis by (simp add: is_mac_separator_def byte_of_def)
qed

lemma mac_hex_lower: "mac_hex (to_ascii_lowercase m) = mac_hex m"
  by (induction m) (auto simp: mac_hex_def to_ascii_lowercase_def lower_char_eq_separator)

lemma normalize_mac_ignore_case:
  "eq_ignore_ascii_case a b \<Longrightarrow> normalize_mac a = normalize_mac b"
  by (metis eq_ignore_ascii_case_def mac_hex_lower normalize_mac_eq)

end
