(* ===== verification/Dhcp_Alloc.thy ===== *)
theory Dhcp_Alloc
  imports Dhcp_Model
begin

text \<open>
  Address allocation of the DHCPv4 server, \<^verbatim>\<open>magnetite-dhcp/src/alloc.rs\<close>: MAC comparison, the
  split-scope slices of a pool range and \<^verbatim>\<open>allocate_ip\<close>. The slices of the nodes partition the
  range without wrapping; the allocator is safe (nothing reserved or held by somebody else is
  handed out), complete (it fails only when nothing is free) and sticky (a client keeps its
  address).
\<close>

section \<open>Definitions\<close>

definition mac_eq :: "string \<Rightarrow> string \<Rightarrow> bool" where
  "mac_eq a b =
     (case (normalize_mac a, normalize_mac b) of
        (Some x, Some y) \<Rightarrow> x = y
      | _ \<Rightarrow> eq_ignore_ascii_case a b)"

record pool_partition =
  part_index :: u32
  part_count :: u32

definition u32_try_from :: "u64 \<Rightarrow> u32 option" where
  "u32_try_from n = (if unat n < 2 ^ 32 then Some (ucast n) else None)"

definition unwrap_or :: "'a option \<Rightarrow> 'a \<Rightarrow> 'a" where
  "unwrap_or x d = (case x of Some v \<Rightarrow> v | None \<Rightarrow> d)"

definition slice_range :: "pool_partition \<Rightarrow> u32 \<Rightarrow> u32 \<Rightarrow> u32 \<times> u32" where
  "slice_range p s e =
     (if part_count p \<le> 1 \<or> part_count p \<le> part_index p \<or> e < s then (s, e)
      else
        let total = (ucast (e - s) :: u64) + 1;
            size = total div ucast (part_count p)
        in if size = 0 then (s, e)
           else
             let node_start = s + unwrap_or (u32_try_from (ucast (part_index p) * size)) 0;
                 node_end = (if part_index p = part_count p - 1 then e
                             else node_start + unwrap_or (u32_try_from size) 0 - 1)
             in (node_start, node_end))"

definition in_range :: "u32 \<Rightarrow> u32 \<Rightarrow> u32 \<Rightarrow> bool" where
  "in_range ip s e \<longleftrightarrow> s \<le> ip \<and> ip \<le> e"

fun holds_state :: "lease_state \<Rightarrow> bool" where
  "holds_state Active = True"
| "holds_state Offered = True"
| "holds_state Expired = False"
| "holds_state Released = False"

definition holds_address :: "lease \<Rightarrow> bool" where
  "holds_address l = holds_state (lease_st l)"

text \<open>The sets the allocator collects before it chooses.\<close>

definition reserved_ips :: "reservation list \<Rightarrow> u32 list" where
  "reserved_ips rs = List.map_filter (\<lambda>r. parse_ipv4 (res_ip_address r)) rs"

definition lease_of_mac :: "string \<Rightarrow> lease \<Rightarrow> bool" where
  "lease_of_mac mac l = (case lease_mac_address l of Some m \<Rightarrow> mac_eq m mac | None \<Rightarrow> False)"

definition held_by_other :: "lease list \<Rightarrow> string \<Rightarrow> u32 list" where
  "held_by_other ls mac =
     List.map_filter (\<lambda>l. parse_ipv4 (lease_ip_address l))
       (filter (\<lambda>l. \<not> lease_of_mac mac l) (filter holds_address ls))"

text \<open>The smallest \<open>n\<close> with \<open>s \<le> n \<le> e\<close> and \<open>P n\<close>: \<^verbatim>\<open>(s..=e).find(P)\<close>.\<close>

definition find_range :: "(u32 \<Rightarrow> bool) \<Rightarrow> u32 \<Rightarrow> u32 \<Rightarrow> u32 option" where
  "find_range P s e = List.find P (map word_of_nat [unat s..<Suc (unat e)])"

text \<open>The steps of \<^verbatim>\<open>allocate_ip\<close>, in the order the policy tries them.\<close>

definition reservation_ip :: "reservation list \<Rightarrow> string \<Rightarrow> ipv4 option" where
  "reservation_ip rs mac =
     (case List.find (\<lambda>r. mac_eq (res_mac_address r) mac) rs of
        Some r \<Rightarrow> parse_ipv4 (res_ip_address r)
      | None \<Rightarrow> None)"

definition current_lease_ip :: "lease list \<Rightarrow> string \<Rightarrow> ipv4 option" where
  "current_lease_ip ls mac =
     (case List.find (lease_of_mac mac) (filter holds_address ls) of
        Some l \<Rightarrow> parse_ipv4 (lease_ip_address l)
      | None \<Rightarrow> None)"

definition allocate_ip ::
  "pool \<Rightarrow> reservation list \<Rightarrow> lease list \<Rightarrow> string \<Rightarrow> ipv4 option \<Rightarrow> pool_partition option
   \<Rightarrow> ipv4 option" where
  "allocate_ip pool rs ls mac requested part =
     (case reservation_ip rs mac of
        Some ip \<Rightarrow> Some ip
      | None \<Rightarrow>
          (case v4_range pool of
             None \<Rightarrow> None
           | Some (s, e) \<Rightarrow>
               if e < s then None
               else
                 let reserved = reserved_ips rs;
                     held = held_by_other ls mac;
                     reuse = (case current_lease_ip ls mac of
                                Some n \<Rightarrow> if in_range n s e \<and> n \<notin> set reserved then Some n else None
                              | None \<Rightarrow> None);
                     want = (case requested of
                               Some n \<Rightarrow> if in_range n s e \<and> n \<notin> set reserved \<and> n \<notin> set held
                                          then Some n else None
                             | None \<Rightarrow> None)
                 in (case reuse of
                       Some n \<Rightarrow> Some n
                     | None \<Rightarrow>
                         (case want of
                            Some n \<Rightarrow> Some n
                          | None \<Rightarrow>
                              (case (case part of None \<Rightarrow> (s, e) | Some p \<Rightarrow> slice_range p s e) of
                                 (s', e') \<Rightarrow>
                                   find_range (\<lambda>n. n \<notin> set reserved \<and> n \<notin> set held) s' e')))))"

lemmas alloc_defs = allocate_ip_def reservation_ip_def current_lease_ip_def find_range_def
  held_by_other_def reserved_ips_def lease_of_mac_def in_range_def holds_address_def
  unwrap_or_def u32_try_from_def slice_range_def map_filter_simps

text \<open>What the lease table guarantees the allocator: one holder per address.\<close>

definition unique_holders :: "lease list \<Rightarrow> bool" where
  "unique_holders ls = distinct (map lease_ip_address (filter holds_address ls))"

section \<open>MAC comparison\<close>

lemma mac_eq_iff:
  "mac_eq a b \<longleftrightarrow>
     normalize_mac a = normalize_mac b \<and> (normalize_mac a \<noteq> None \<or> eq_ignore_ascii_case a b)"
  using normalize_mac_ignore_case [of a b]
  by (auto simp: mac_eq_def split: option.splits)

lemma mac_eq_refl [simp]: "mac_eq a a"
  by (simp add: mac_eq_iff)

lemma mac_eq_sym: "mac_eq a b \<longleftrightarrow> mac_eq b a"
  unfolding mac_eq_iff eq_ignore_ascii_case_def by metis

lemma mac_eq_trans: "mac_eq a b \<Longrightarrow> mac_eq b c \<Longrightarrow> mac_eq a c"
  unfolding mac_eq_iff eq_ignore_ascii_case_def by metis

section \<open>Slices\<close>

text \<open>The slice as natural numbers, the specification of the word arithmetic.\<close>

definition slice_size :: "pool_partition \<Rightarrow> u32 \<Rightarrow> u32 \<Rightarrow> nat" where
  "slice_size p s e = (unat e - unat s + 1) div unat (part_count p)"

lemma unat_ucast_u64 [simp]: "unat (ucast x :: u64) = unat x" for x :: u32
proof -
  have "unat x < 2 ^ 32" using unsigned_less [where 'a = nat, of x] by simp
  then have "unat x < 2 ^ 64" by simp
  then show ?thesis by (simp add: unsigned_ucast_eq take_bit_nat_eq_self)
qed

lemma unat_total: "s \<le> e \<Longrightarrow> unat ((ucast (e - s) :: u64) + 1) = unat e - unat s + 1"
  for s e :: u32
proof -
  assume "s \<le> e"
  have "unat (ucast (e - s) :: u64) = unat e - unat s"
    using \<open>s \<le> e\<close> by (simp add: unat_sub)
  moreover have "unat e < 2 ^ 32" using unsigned_less [where 'a = nat, of e] by simp
  ultimately show ?thesis by (simp add: unat_word_ariths)
qed

lemma slice_size_div:
  "s \<le> e \<Longrightarrow>
   unat (((ucast (e - s) :: u64) + 1) div ucast (part_count p)) = slice_size p s e"
  by (simp add: slice_size_def unat_div unat_total)

lemma slice_offset_le:
  assumes "i < unat (part_count p)"
  shows "i * slice_size p s e + slice_size p s e \<le> unat e - unat s + 1"
proof -
  have "i * slice_size p s e + slice_size p s e = Suc i * slice_size p s e" by simp
  also have "\<dots> \<le> unat (part_count p) * slice_size p s e"
    using assms by (intro mult_le_mono1) simp
  also have "\<dots> \<le> unat e - unat s + 1" by (simp add: slice_size_def)
  finally show ?thesis .
qed

lemma unat_try_from [simp]:
  "unat n < 2 ^ 32 \<Longrightarrow> unat (unwrap_or (u32_try_from n) 0) = unat n"
  by (simp add: unwrap_or_def u32_try_from_def unsigned_ucast_eq take_bit_nat_eq_self)

lemma slice_nat:
  assumes "1 < part_count p" and "part_index p < part_count p" and "s \<le> e"
    and "slice_size p s e \<noteq> 0"
  defines "sz \<equiv> slice_size p s e"
  shows "unat (fst (slice_range p s e)) = unat s + unat (part_index p) * sz"
    and "unat (snd (slice_range p s e)) =
           (if part_index p = part_count p - 1 then unat e
            else unat s + unat (part_index p) * sz + sz - 1)"
proof -
  define size where "size = ((ucast (e - s) :: u64) + 1) div ucast (part_count p)"
  define off where "off = (ucast (part_index p) :: u64) * size"
  define start where "start = s + unwrap_or (u32_try_from off) 0"
  define stop where "stop = start + unwrap_or (u32_try_from size) 0 - 1"
  have size: "unat size = sz" using assms by (simp add: size_def slice_size_div)
  then have slice: "slice_range p s e = (start, if part_index p = part_count p - 1 then e else stop)"
    using assms by (auto simp: slice_range_def Let_def size_def off_def start_def stop_def)
  have le: "unat (part_index p) * sz + sz \<le> unat e - unat s + 1"
    unfolding sz_def using assms(2) by (intro slice_offset_le) (simp add: word_less_nat_alt)
  have e: "unat e < 2 ^ 32" using unsigned_less [where 'a = nat, of e] by simp
  have se: "unat s \<le> unat e" using assms(3) by (simp add: word_le_nat_alt)
  have pos: "0 < sz" using assms(4) by (simp add: sz_def)
  have off: "unat off = unat (part_index p) * sz"
    unfolding off_def using le e size by (subst unat_mult_lem [THEN iffD1]) auto
  have start: "unat start = unat s + unat (part_index p) * sz"
    unfolding start_def using le e se pos off by (subst unat_add_lem [THEN iffD1]) auto
  then show "unat (fst (slice_range p s e)) = unat s + unat (part_index p) * sz"
    by (simp add: slice)
  have stop: "unat stop = unat start + sz - 1" if "part_index p \<noteq> part_count p - 1"
  proof -
    have "unat (part_index p) \<noteq> unat (part_count p - 1)"
      using that by (simp only: word_unat_eq_iff not_False_eq_True)
    moreover have "unat (part_count p - 1) = unat (part_count p) - 1"
      using assms(1) by (simp add: unat_sub word_le_nat_alt word_less_nat_alt)
    ultimately have i: "Suc (unat (part_index p)) < unat (part_count p)"
      using assms(2) by (simp add: word_less_nat_alt)
    then have "Suc (unat (part_index p)) * sz + sz \<le> unat e - unat s + 1"
      unfolding sz_def by (rule slice_offset_le)
    then have lt: "unat start + sz < 2 ^ 32" using start se e pos by simp
    then have "unat (start + unwrap_or (u32_try_from size) 0) = unat start + sz"
      using size by (subst unat_add_lem [THEN iffD1]) auto
    then show ?thesis
      unfolding stop_def using pos by (subst unat_minus_one) (auto simp: unat_eq_0)
  qed
  then show "unat (snd (slice_range p s e)) =
           (if part_index p = part_count p - 1 then unat e
            else unat s + unat (part_index p) * sz + sz - 1)"
    by (simp add: slice start)
qed

text \<open>Which slice an address is in, by arithmetic on its offset in the range.\<close>

lemma in_slice_iff:
  assumes "1 < c" and "i < c" and "s \<le> e" and "unat c \<le> unat e - unat s + 1" and "in_range x s e"
  defines "sz \<equiv> (unat e - unat s + 1) div unat c"
  shows "in_range x (fst (slice_range \<lparr>part_index = i, part_count = c\<rparr> s e))
                    (snd (slice_range \<lparr>part_index = i, part_count = c\<rparr> s e))
         \<longleftrightarrow> unat i = min ((unat x - unat s) div sz) (unat c - 1)"
proof -
  let ?p = "\<lparr>part_index = i, part_count = c\<rparr>"
  have sz: "slice_size ?p s e = sz" by (simp add: slice_size_def sz_def)
  have pos: "0 < sz" using assms by (simp add: div_greater_zero_iff word_less_nat_alt)
  have i: "unat i < unat c" "1 < unat c" using assms by (simp_all add: word_less_nat_alt)
  have last: "i = c - 1 \<longleftrightarrow> unat i = unat c - 1"
    using assms(1) by (simp add: word_unat_eq_iff unat_sub word_le_nat_alt word_less_nat_alt)
  have x: "unat s \<le> unat x" "unat x \<le> unat e"
    using assms by (simp_all add: in_range_def word_le_nat_alt)
  have "in_range x (fst (slice_range ?p s e)) (snd (slice_range ?p s e)) \<longleftrightarrow>
        unat i * sz \<le> unat x - unat s \<and>
        (unat i = unat c - 1 \<or> unat x - unat s < Suc (unat i) * sz)"
    using assms(1-3) pos x slice_nat [of ?p s e]
    by (auto simp: in_range_def word_le_nat_alt sz last)
  also have "\<dots> \<longleftrightarrow> unat i \<le> (unat x - unat s) div sz \<and>
        (unat i = unat c - 1 \<or> (unat x - unat s) div sz < Suc (unat i))"
    using pos by (simp add: less_eq_div_iff_mult_less_eq div_less_iff_less_mult)
  also have "\<dots> \<longleftrightarrow> unat i = min ((unat x - unat s) div sz) (unat c - 1)"
    using i by auto
  finally show ?thesis .
qed

lemma slice_ex1:
  assumes "1 < c" and "s \<le> e" and "unat c \<le> unat e - unat s + 1" and "in_range x s e"
  shows "\<exists>!i. i < c \<and> in_range x (fst (slice_range \<lparr>part_index = i, part_count = c\<rparr> s e))
                            (snd (slice_range \<lparr>part_index = i, part_count = c\<rparr> s e))"
proof -
  define k where
    "k = min ((unat x - unat s) div ((unat e - unat s + 1) div unat c)) (unat c - 1)"
  have "k < unat c" using assms(1) by (simp add: k_def word_less_nat_alt)
  then have k: "unat (word_of_nat k :: u32) = k"
    using unsigned_less [where 'a = nat, of c]
    by (simp add: unsigned_of_nat take_bit_nat_eq_self)
  have "i < c \<and> in_range x (fst (slice_range \<lparr>part_index = i, part_count = c\<rparr> s e))
                  (snd (slice_range \<lparr>part_index = i, part_count = c\<rparr> s e))
        \<longleftrightarrow> i = word_of_nat k" for i
    using in_slice_iff [OF assms(1) _ assms(2-4), of i, folded k_def] \<open>k < unat c\<close> k
    by (auto simp: word_less_nat_alt word_unat_eq_iff)
  then show ?thesis by simp
qed

text \<open>A slice never leaves the range.\<close>

lemma slice_whole:
  assumes "part_count p \<le> 1 \<or> part_count p \<le> part_index p \<or> slice_size p s e = 0" and "s \<le> e"
  shows "slice_range p s e = (s, e)"
proof -
  have "slice_size p s e = 0 \<longleftrightarrow> ((ucast (e - s) :: u64) + 1) div ucast (part_count p) = 0"
    using slice_size_div [OF assms(2), of p] unat_eq_zero by metis
  then show ?thesis using assms(1) by (auto simp: slice_range_def Let_def)
qed

lemma slice_subrange:
  assumes "s \<le> e" and "slice_range p s e = (a, b)"
  shows "s \<le> a" and "b \<le> e"
proof -
  consider (whole) "(a, b) = (s, e)"
    | (part) "1 < part_count p" "part_index p < part_count p" "slice_size p s e \<noteq> 0"
    using assms slice_whole [of p s e] by (metis not_le)
  then have "s \<le> a \<and> b \<le> e"
  proof cases
    case whole
    then show ?thesis by simp
  next
    case part
    have "unat (part_index p) * slice_size p s e + slice_size p s e \<le> unat e - unat s + 1"
      using part by (intro slice_offset_le) (simp add: word_less_nat_alt)
    then show ?thesis
      using slice_nat [OF part(1,2) assms(1) part(3)] assms
      by (auto simp: word_le_nat_alt split: if_splits)
  qed
  then show "s \<le> a" and "b \<le> e" by simp_all
qed

section \<open>The allocator\<close>

lemma word_range_iff:
  "n \<in> set (map word_of_nat [unat s..<Suc (unat e)]) \<longleftrightarrow> s \<le> n \<and> n \<le> e" for n s e :: u32
proof
  assume "n \<in> set (map word_of_nat [unat s..<Suc (unat e)])"
  then obtain k where k: "unat s \<le> k" "k \<le> unat e" "n = word_of_nat k" by auto
  moreover have "k < 2 ^ 32" using k unsigned_less [where 'a = nat, of e] by simp
  ultimately show "s \<le> n \<and> n \<le> e"
    by (simp add: word_le_nat_alt unsigned_of_nat take_bit_nat_eq_self)
next
  assume "s \<le> n \<and> n \<le> e"
  then have "unat n \<in> set [unat s..<Suc (unat e)]" by (auto simp: word_le_nat_alt)
  moreover have "n = word_of_nat (unat n)" by simp
  ultimately show "n \<in> set (map word_of_nat [unat s..<Suc (unat e)])"
    unfolding set_map by (rule image_eqI [rotated])
qed

lemma find_range_Some:
  assumes "find_range P s e = Some n"
  shows "s \<le> n" and "n \<le> e" and "P n"
proof -
  have "n \<in> set (map word_of_nat [unat s..<Suc (unat e)]) \<and> P n"
    using assms unfolding find_range_def by (rule find_SomeD)
  then show "s \<le> n" and "n \<le> e" and "P n" unfolding word_range_iff by simp_all
qed

lemma find_range_None:
  "find_range P s e = None \<longleftrightarrow> (\<forall>n. s \<le> n \<and> n \<le> e \<longrightarrow> \<not> P n)"
  unfolding find_range_def find_None_iff_all Ball_def word_range_iff by blast

lemma find_range_least:
  assumes "find_range P s e = Some n" and "s \<le> m" and "m < n"
  shows "\<not> P m"
proof -
  let ?xs = "map word_of_nat [unat s..<Suc (unat e)] :: u32 list"
  obtain i where i: "i < length ?xs" "n = ?xs ! i" "\<forall>j < i. \<not> P (?xs ! j)"
    using assms(1) by (auto simp: find_range_def find_Some_iff)
  have idx: "unat (?xs ! j) = unat s + j" if "j < length ?xs" for j
    using that unsigned_less [where 'a = nat, of e]
    by (simp add: unsigned_of_nat take_bit_nat_eq_self del: upt_Suc of_nat_add split: if_splits)
  have "unat m - unat s < i"
    using i(1) idx [OF i(1)] assms(2,3) unfolding i(2) by (simp add: word_less_nat_alt word_le_nat_alt)
  moreover from this have "?xs ! (unat m - unat s) = m"
    using idx [of "unat m - unat s"] i(1) assms(2) by (simp add: word_unat_eq_iff word_le_nat_alt)
  ultimately show ?thesis using i(3) by metis
qed

lemma held_by_other_iff:
  "n \<in> set (held_by_other ls mac) \<longleftrightarrow>
     (\<exists>l \<in> set ls. holds_address l \<and> \<not> lease_of_mac mac l \<and> lease_ip_address l = show_ipv4 n)"
  by (auto simp: held_by_other_def in_set_map_filter parse_ipv4_Some_iff)

lemma reserved_ips_iff:
  "n \<in> set (reserved_ips rs) \<longleftrightarrow> (\<exists>r \<in> set rs. res_ip_address r = show_ipv4 n)"
  by (auto simp: reserved_ips_def in_set_map_filter parse_ipv4_Some_iff)

lemma current_lease_ip_Some:
  assumes "current_lease_ip ls mac = Some n"
  obtains l where "l \<in> set ls" "holds_address l" "lease_of_mac mac l"
    "lease_ip_address l = show_ipv4 n"
proof -
  from assms obtain l where "List.find (lease_of_mac mac) (filter holds_address ls) = Some l"
    and "lease_ip_address l = show_ipv4 n"
    by (auto simp: current_lease_ip_def parse_ipv4_Some_iff split: option.splits)
  then show thesis using that find_SomeD by fastforce
qed

lemma current_lease_not_held:
  assumes "unique_holders ls" and "current_lease_ip ls mac = Some n"
  shows "n \<notin> set (held_by_other ls mac)"
proof
  assume "n \<in> set (held_by_other ls mac)"
  then obtain l' where l': "l' \<in> set ls" "holds_address l'" "\<not> lease_of_mac mac l'"
    "lease_ip_address l' = show_ipv4 n" by (auto simp: held_by_other_iff)
  obtain l where l: "l \<in> set ls" "holds_address l" "lease_of_mac mac l"
    "lease_ip_address l = show_ipv4 n" using assms(2) by (rule current_lease_ip_Some)
  have "inj_on lease_ip_address (set (filter holds_address ls))"
    using assms(1) by (simp add: unique_holders_def distinct_map)
  then have "l = l'" by (rule inj_onD) (use l l' in simp_all)
  then show False using l l' by simp
qed

lemma find_range_slice_in_range:
  assumes "find_range P s' e' = Some n" and "s \<le> e"
    and "(case part of None \<Rightarrow> (s, e) | Some p \<Rightarrow> slice_range p s e) = (s', e')"
  shows "in_range n s e"
  using find_range_Some [OF assms(1)] slice_subrange [OF assms(2)] assms(3)
  by (fastforce simp: in_range_def split: option.splits)

text \<open>Every answer other than a reservation: in the range, unreserved, and either the client's own
  current address or one nobody else holds.\<close>

lemma allocate_ip_dynamic:
  assumes "allocate_ip pool rs ls mac req part = Some ip" and "reservation_ip rs mac = None"
  obtains s e where "v4_range pool = Some (s, e)" "in_range ip s e" "ip \<notin> set (reserved_ips rs)"
    "current_lease_ip ls mac = Some ip \<or> ip \<notin> set (held_by_other ls mac)"
proof -
  from assms obtain s e where v: "v4_range pool = Some (s, e)" and "\<not> e < s"
    by (auto simp: allocate_ip_def split: option.splits prod.splits if_splits)
  then have se: "s \<le> e" by simp
  have "in_range ip s e \<and> ip \<notin> set (reserved_ips rs) \<and>
      (current_lease_ip ls mac = Some ip \<or> ip \<notin> set (held_by_other ls mac))"
    using assms v se find_range_slice_in_range [of _ _ _ ip s e part]
    by (auto simp: allocate_ip_def Let_def split: option.splits prod.splits if_splits
        dest: find_range_Some(3))
  then show thesis using that v by blast
qed

lemma allocate_ip_safe:
  assumes "unique_holders ls" and "reservation_ip rs mac = None"
    and "allocate_ip pool rs ls mac req part = Some ip"
  shows "ip_in_pool_v4 pool (show_ipv4 ip)"
    and "\<forall>r \<in> set rs. res_ip_address r \<noteq> show_ipv4 ip"
    and "\<forall>l \<in> set ls. holds_address l \<and> lease_ip_address l = show_ipv4 ip \<longrightarrow> lease_of_mac mac l"
proof -
  obtain s e where h: "v4_range pool = Some (s, e)" "in_range ip s e"
    "ip \<notin> set (reserved_ips rs)"
    "current_lease_ip ls mac = Some ip \<or> ip \<notin> set (held_by_other ls mac)"
    using assms(3,2) by (rule allocate_ip_dynamic)
  from h(4) have "ip \<notin> set (held_by_other ls mac)"
    using current_lease_not_held [OF assms(1)] by blast
  with h show "ip_in_pool_v4 pool (show_ipv4 ip)"
    and "\<forall>r \<in> set rs. res_ip_address r \<noteq> show_ipv4 ip"
    and "\<forall>l \<in> set ls. holds_address l \<and> lease_ip_address l = show_ipv4 ip \<longrightarrow> lease_of_mac mac l"
    by (auto simp: ip_in_pool_v4_def in_range_def reserved_ips_iff held_by_other_iff)
qed

text \<open>The allocator fails only when the client has no reservation and nothing it could be given is
  free: no range, or its own address unusable and every address of the node's slice taken.\<close>

definition taken :: "reservation list \<Rightarrow> lease list \<Rightarrow> string \<Rightarrow> u32 \<Rightarrow> bool" where
  "taken rs ls mac n \<longleftrightarrow> n \<in> set (reserved_ips rs) \<or> n \<in> set (held_by_other ls mac)"

definition node_range :: "pool_partition option \<Rightarrow> u32 \<Rightarrow> u32 \<Rightarrow> u32 \<times> u32" where
  "node_range part s e = (case part of None \<Rightarrow> (s, e) | Some p \<Rightarrow> slice_range p s e)"

lemma allocate_ip_None:
  assumes "allocate_ip pool rs ls mac req part = None" and "v4_range pool = Some (s, e)" and "s \<le> e"
    and "fst (node_range part s e) \<le> n" and "n \<le> snd (node_range part s e)"
  shows "taken rs ls mac n"
  using assms
  by (auto simp: allocate_ip_def Let_def taken_def node_range_def find_range_None
      split: option.splits prod.splits if_splits)

lemma allocate_ip_first_free:
  assumes "allocate_ip pool rs ls mac None part = Some ip"
    and "reservation_ip rs mac = None" and "current_lease_ip ls mac = None"
    and "v4_range pool = Some (s, e)"
  shows "fst (node_range part s e) \<le> ip" and "ip \<le> snd (node_range part s e)"
    and "\<not> taken rs ls mac ip"
    and "fst (node_range part s e) \<le> m \<Longrightarrow> m < ip \<Longrightarrow> taken rs ls mac m"
proof -
  let ?P = "\<lambda>n. n \<notin> set (reserved_ips rs) \<and> n \<notin> set (held_by_other ls mac)"
  have f: "find_range ?P (fst (node_range part s e)) (snd (node_range part s e)) = Some ip"
    using assms by (simp add: allocate_ip_def Let_def node_range_def split: prod.splits if_splits)
  note find_range_Some [OF f]
  then show "fst (node_range part s e) \<le> ip" and "ip \<le> snd (node_range part s e)"
    and "\<not> taken rs ls mac ip" by (simp_all add: taken_def)
  show "taken rs ls mac m" if "fst (node_range part s e) \<le> m" "m < ip"
    using find_range_least [OF f that] by (simp add: taken_def)
qed

text \<open>A client that holds a usable address is given the same one, whatever it asks for and
  whichever node answers.\<close>

lemma allocate_ip_sticky:
  assumes "reservation_ip rs mac = None" and "v4_range pool = Some (s, e)"
    and "current_lease_ip ls mac = Some ip" and "in_range ip s e" and "ip \<notin> set (reserved_ips rs)"
  shows "allocate_ip pool rs ls mac req part = Some ip"
  using assms by (auto simp: allocate_ip_def Let_def in_range_def)

lemma allocate_ip_reserved:
  "reservation_ip rs mac = Some ip \<Longrightarrow> allocate_ip pool rs ls mac req part = Some ip"
  by (simp add: allocate_ip_def)

section \<open>Properties\<close>




end
