(* ===== verification/Dhcp_Store.thy ===== *)
theory Dhcp_Store
  imports Dhcp_Alloc Rust_Result "HOL-Library.Product_Lexorder"
begin

text \<open>
  The DHCP repository, \<^verbatim>\<open>magnetite-db/src/dhcp.rs\<close>: pools with the range-overlap check,
  reservations, leases keyed by (pool, address), the configuration singleton, the replication
  feed and its application on a peer. A row is the model record it converts to; time stamps are
  compared as the RFC 3339 texts the rows hold, through the parameter \<open>rfc\<close>.
\<close>

section \<open>The store\<close>

record repl_state =
  repl_cursor :: string
  repl_last_sync :: "time option"

datatype log_level = Info | Warn

record log_entry =
  log_level_of :: log_level
  log_message :: string
  log_at :: time

record dhcp_store =
  pools :: "pool list"
  reservations :: "reservation list"
  leases :: "lease list"
  configs :: "dhcp_config list"
  repl_states :: "repl_state list"
  logs :: "log_entry list"

datatype dhcp_query =
  Q_pools | Q_get_pool | Q_create_pool | Q_update_pool | Q_delete_pool_leases | Q_delete_pool
| Q_reservations | Q_create_reservation | Q_delete_reservation | Q_leases | Q_delete_lease
| Q_create_lease | Q_feed | Q_get_lease | Q_expire | Q_release | Q_get_config | Q_create_config
| Q_delete_config | Q_get_cursor | Q_create_cursor | Q_update_cursor | Q_log

datatype store_msg = RangeOverlap | MacDup | PoolInUse | NotReleasable

type_synonym 'a dhcp_result = "(store_msg, 'a) db_result"

type_synonym failures = "dhcp_query \<Rightarrow> bool"

section \<open>Pools\<close>

definition in_pool_range :: "pool \<Rightarrow> string \<Rightarrow> bool" where
  "in_pool_range p ip =
     (case parse_ipv4 ip of
        Some n \<Rightarrow> (case v4_range p of Some (s, e) \<Rightarrow> s \<le> n \<and> n \<le> e | None \<Rightarrow> False)
      | None \<Rightarrow>
          (case parse_ipv6 ip of
             Some n \<Rightarrow> (case v6_range p of Some (s, e) \<Rightarrow> s \<le> n \<and> n \<le> e | None \<Rightarrow> False)
           | None \<Rightarrow> False))"

definition list_pools :: "failures \<Rightarrow> dhcp_store \<Rightarrow> pool list dhcp_result" where
  "list_pools fails st = (if fails Q_pools then Inl Surreal else Inr (sort_key pool_name (pools st)))"

definition get_pool :: "failures \<Rightarrow> dhcp_store \<Rightarrow> string \<Rightarrow> pool option dhcp_result" where
  "get_pool fails st i =
     (if fails Q_get_pool then Inl Surreal else Inr (List.find (\<lambda>p. pool_id p = i) (pools st)))"

definition overlaps :: "pool \<Rightarrow> pool \<Rightarrow> bool" where
  "overlaps p q \<longleftrightarrow>
     (case (v4_range p, v4_range q) of (Some a, Some b) \<Rightarrow> intervals_overlap a b | _ \<Rightarrow> False) \<or>
     (case (v6_range p, v6_range q) of (Some a, Some b) \<Rightarrow> intervals_overlap a b | _ \<Rightarrow> False)"

definition check_range_overlap ::
  "failures \<Rightarrow> dhcp_store \<Rightarrow> pool \<Rightarrow> string option \<Rightarrow> unit dhcp_result" where
  "check_range_overlap fails st p exclude =
     try_r (list_pools fails st) (\<lambda>ps.
       if list_ex (\<lambda>q. exclude \<noteq> Some (pool_id q) \<and> overlaps p q) ps
       then Inl (Constraint RangeOverlap) else Inr ())"

text \<open>The pool table has a unique index on the name.\<close>

definition create_pool ::
  "failures \<Rightarrow> time \<Rightarrow> string \<Rightarrow> dhcp_store \<Rightarrow> pool \<Rightarrow> dhcp_store \<times> pool dhcp_result" where
  "create_pool fails t new_id st p =
     try_s st (check_range_overlap fails st p None) (\<lambda>_.
       if fails Q_create_pool \<or> pool_name p \<in> pool_name ` set (pools st) then (st, Inl Surreal)
       else
         let row = p\<lparr>pool_id := new_id, pool_created_at := t, pool_updated_at := t\<rparr>
         in (st\<lparr>pools := pools st @ [row]\<rparr>, Inr row))"

definition update_pool ::
  "failures \<Rightarrow> time \<Rightarrow> dhcp_store \<Rightarrow> pool \<Rightarrow> dhcp_store \<times> pool option dhcp_result" where
  "update_pool fails t st p =
     try_s st (check_range_overlap fails st p (Some (pool_id p))) (\<lambda>_.
       if fails Q_update_pool \<or>
          (\<exists>q \<in> set (pools st). pool_id q \<noteq> pool_id p \<and> pool_name q = pool_name p)
       then (st, Inl Surreal)
       else if pool_id p \<in> pool_id ` set (pools st)
       then
         let row = p\<lparr>pool_created_at := t, pool_updated_at := t\<rparr>
         in (st\<lparr>pools := map (\<lambda>q. if pool_id q = pool_id p then row else q) (pools st)\<rparr>, Inr (Some row))
       else (st, Inr None))"

section \<open>Leases\<close>

definition list_leases :: "failures \<Rightarrow> dhcp_store \<Rightarrow> string option \<Rightarrow> lease list dhcp_result" where
  "list_leases fails st pool_ref =
     (if fails Q_leases then Inl Surreal
      else Inr (sort_key (\<lambda>l. - lease_start l)
                  (case pool_ref of
                     Some p \<Rightarrow> filter (\<lambda>l. lease_pool_ref l = p) (leases st)
                   | None \<Rightarrow> leases st)))"

definition count_pool_active_leases ::
  "failures \<Rightarrow> time \<Rightarrow> dhcp_store \<Rightarrow> string \<Rightarrow> nat dhcp_result" where
  "count_pool_active_leases fails t st p =
     try_r (list_leases fails st (Some p)) (\<lambda>ls. Inr (length (filter (\<lambda>l. is_active_at l t) ls)))"

definition same_key :: "lease \<Rightarrow> lease \<Rightarrow> bool" where
  "same_key l k \<longleftrightarrow> lease_pool_ref k = lease_pool_ref l \<and> lease_ip_address k = lease_ip_address l"

definition upsert_lease ::
  "failures \<Rightarrow> string \<Rightarrow> dhcp_store \<Rightarrow> lease \<Rightarrow> dhcp_store \<times> lease dhcp_result" where
  "upsert_lease fails new_id st l =
     (if fails Q_delete_lease then (st, Inl Surreal)
      else
        let st1 = st\<lparr>leases := filter (\<lambda>k. \<not> same_key l k) (leases st)\<rparr>;
            row = l\<lparr>lease_id := new_id\<rparr>
        in if fails Q_create_lease then (st1, Inl Surreal)
           else (st1\<lparr>leases := leases st1 @ [row]\<rparr>, Inr row))"

definition apply_replicated_lease ::
  "failures \<Rightarrow> string \<Rightarrow> dhcp_store \<Rightarrow> lease \<Rightarrow> dhcp_store \<times> bool dhcp_result" where
  "apply_replicated_lease fails new_id st l =
     (if fails Q_get_lease then (st, Inl Surreal)
      else
        let existing = List.find (same_key l) (leases st)
        in if (case existing of None \<Rightarrow> False | Some cur \<Rightarrow> lease_updated_at l \<le> lease_updated_at cur)
           then (st, Inr False)
           else then_s (upsert_lease fails new_id st l) (\<lambda>st1 _. (st1, Inr True)))"

definition stale :: "(time \<Rightarrow> string) \<Rightarrow> time \<Rightarrow> lease \<Rightarrow> bool" where
  "stale rfc t l \<longleftrightarrow> (lease_st l = Active \<or> lease_st l = Offered) \<and> rfc (lease_expiry l) < rfc t"

definition expire_stale_leases ::
  "failures \<Rightarrow> (time \<Rightarrow> string) \<Rightarrow> time \<Rightarrow> dhcp_store \<Rightarrow> dhcp_store \<times> nat dhcp_result" where
  "expire_stale_leases fails rfc t st =
     (if fails Q_expire then (st, Inl Surreal)
      else (st\<lparr>leases := map (\<lambda>l. if stale rfc t l then l\<lparr>lease_st := Expired, lease_updated_at := t\<rparr>
                                  else l) (leases st)\<rparr>,
            Inr (length (filter (stale rfc t) (leases st)))))"

definition release_lease ::
  "failures \<Rightarrow> time \<Rightarrow> dhcp_store \<Rightarrow> string \<Rightarrow> dhcp_store \<times> unit dhcp_result" where
  "release_lease fails t st i =
     (if fails Q_get_lease then (st, Inl Surreal)
      else
        try_s st (ok_or NotFound (List.find (\<lambda>l. lease_id l = i) (leases st))) (\<lambda>l.
          if \<not> is_releasable (lease_st l) then (st, Inl (Constraint NotReleasable))
          else if fails Q_release then (st, Inl Surreal)
          else (st\<lparr>leases := map (\<lambda>k. if lease_id k = i
                                      then k\<lparr>lease_st := Released, lease_updated_at := t\<rparr> else k)
                             (leases st)\<rparr>, Inr ())))"

section \<open>Reservations\<close>

definition list_reservations :: "failures \<Rightarrow> dhcp_store \<Rightarrow> string \<Rightarrow> reservation list dhcp_result" where
  "list_reservations fails st p =
     (if fails Q_reservations then Inl Surreal
      else Inr (sort_key res_ip_address (filter (\<lambda>r. res_pool_ref r = p) (reservations st))))"

definition create_reservation ::
  "failures \<Rightarrow> time \<Rightarrow> string \<Rightarrow> dhcp_store \<Rightarrow> reservation \<Rightarrow> dhcp_store \<times> reservation dhcp_result"
  where
  "create_reservation fails t new_id st r =
     try_s st (get_pool fails st (res_pool_ref r)) (\<lambda>found.
     try_s st (ok_or NotFound found) (\<lambda>p.
       if \<not> in_pool_range p (res_ip_address r) then (st, Inl (Constraint RangeOverlap))
       else try_s st (list_reservations fails st (res_pool_ref r)) (\<lambda>existing.
         if list_ex (\<lambda>q. res_mac_address q = res_mac_address r) existing
         then (st, Inl (Constraint MacDup))
         else if list_ex (\<lambda>q. res_ip_address q = res_ip_address r) existing
         then (st, Inl (Constraint RangeOverlap))
         else if fails Q_create_reservation then (st, Inl Surreal)
         else
           let row = r\<lparr>res_id := new_id, res_created_at := t, res_updated_at := t\<rparr>
           in (st\<lparr>reservations := reservations st @ [row]\<rparr>, Inr row))))"

definition delete_reservation ::
  "failures \<Rightarrow> dhcp_store \<Rightarrow> string \<Rightarrow> dhcp_store \<times> unit dhcp_result" where
  "delete_reservation fails st i =
     (if fails Q_delete_reservation then (st, Inl Surreal)
      else (st\<lparr>reservations := filter (\<lambda>r. res_id r \<noteq> i) (reservations st)\<rparr>, Inr ()))"

definition delete_pool :: "failures \<Rightarrow> dhcp_store \<Rightarrow> string \<Rightarrow> dhcp_store \<times> unit dhcp_result" where
  "delete_pool fails st i =
     try_s st (list_reservations fails st i) (\<lambda>rs.
       if rs \<noteq> [] then (st, Inl (Constraint PoolInUse))
       else if fails Q_delete_pool_leases then (st, Inl Surreal)
       else
         let st1 = st\<lparr>leases := filter (\<lambda>l. lease_pool_ref l \<noteq> i) (leases st)\<rparr>
         in if fails Q_delete_pool then (st1, Inl Surreal)
            else (st1\<lparr>pools := filter (\<lambda>p. pool_id p \<noteq> i) (pools st1)\<rparr>, Inr ()))"

section \<open>Configuration and replication state\<close>

definition get_dhcp_config :: "failures \<Rightarrow> dhcp_store \<Rightarrow> dhcp_store \<times> dhcp_config dhcp_result" where
  "get_dhcp_config fails st =
     (if fails Q_get_config then (st, Inl Surreal)
      else (case configs st of
          c # _ \<Rightarrow> (st, Inr c)
        | [] \<Rightarrow>
            if fails Q_create_config then (st, Inl Surreal)
            else (st\<lparr>configs := [default_dhcp_config]\<rparr>, Inr default_dhcp_config)))"

definition save_dhcp_config :: "failures \<Rightarrow> dhcp_store \<Rightarrow> dhcp_config \<Rightarrow> dhcp_store \<times> unit dhcp_result"
  where
  "save_dhcp_config fails st c =
     then_s (get_dhcp_config fails st) (\<lambda>st1 _.
       if fails Q_delete_config then (st1, Inl Surreal)
       else if fails Q_create_config then (st1\<lparr>configs := []\<rparr>, Inl Surreal)
       else (st1\<lparr>configs := [c]\<rparr>, Inr ()))"

definition get_dhcp_repl_cursor :: "failures \<Rightarrow> dhcp_store \<Rightarrow> string dhcp_result" where
  "get_dhcp_repl_cursor fails st =
     (if fails Q_get_cursor then Inl Surreal
      else Inr (case repl_states st of [] \<Rightarrow> [] | r # _ \<Rightarrow> repl_cursor r))"

definition set_dhcp_repl_cursor ::
  "failures \<Rightarrow> time \<Rightarrow> dhcp_store \<Rightarrow> string \<Rightarrow> dhcp_store \<times> unit dhcp_result" where
  "set_dhcp_repl_cursor fails t st c =
     (if fails Q_get_cursor then (st, Inl Surreal)
      else if repl_states st = []
      then if fails Q_create_cursor then (st, Inl Surreal)
           else (st\<lparr>repl_states := [\<lparr>repl_cursor = c, repl_last_sync = Some t\<rparr>]\<rparr>, Inr ())
      else if fails Q_update_cursor then (st, Inl Surreal)
      else (st\<lparr>repl_states := map (\<lambda>r. r\<lparr>repl_cursor := c, repl_last_sync := Some t\<rparr>)
                                 (repl_states st)\<rparr>, Inr ()))"

definition dhcp_metrics :: "failures \<Rightarrow> time \<Rightarrow> dhcp_store \<Rightarrow> (nat \<times> nat \<times> nat) dhcp_result" where
  "dhcp_metrics fails t st =
     try_r (list_pools fails st) (\<lambda>ps.
       if fails Q_reservations then Inl Surreal
       else try_r (list_leases fails st None) (\<lambda>ls.
         Inr (length ps, length (reservations st), length (filter (\<lambda>l. is_active_at l t) ls))))"

section \<open>The replication feed\<close>

record lease_feed =
  feed_leases :: "lease list"
  feed_cursor :: string

text \<open>\<^verbatim>\<open>cursor.splitn(3, '|')\<close>, missing parts empty.\<close>

definition split_lease_cursor :: "string \<Rightarrow> string \<times> string \<times> string" where
  "split_lease_cursor c =
     (case split_once CHR ''|'' c of
        None \<Rightarrow> (c, [], [])
      | Some (ts, r) \<Rightarrow>
          (case split_once CHR ''|'' r of
             None \<Rightarrow> (ts, r, [])
           | Some (p, i) \<Rightarrow> (ts, p, i)))"

definition feed_key :: "(time \<Rightarrow> string) \<Rightarrow> lease \<Rightarrow> string \<times> string \<times> string" where
  "feed_key rfc l = (rfc (lease_updated_at l), lease_pool_ref l, lease_ip_address l)"

definition after_cursor :: "string \<times> string \<times> string \<Rightarrow> string \<times> string \<times> string \<Rightarrow> bool" where
  "after_cursor c k \<longleftrightarrow>
     (case (c, k) of ((ts, p, i), (ts', p', i')) \<Rightarrow>
        ts < ts' \<or> (ts' = ts \<and> p < p') \<or> (ts' = ts \<and> p' = p \<and> i < i'))"

definition show_cursor :: "string \<times> string \<times> string \<Rightarrow> string" where
  "show_cursor k = (case k of (ts, p, i) \<Rightarrow> ts @ CHR ''|'' # p @ CHR ''|'' # i)"

text \<open>\<^verbatim>\<open>ORDER BY updated_at ASC, pool_ref ASC, ip_address ASC\<close>: three stable sorts, minor key first.\<close>

definition sort_by_key :: "(time \<Rightarrow> string) \<Rightarrow> lease list \<Rightarrow> lease list" where
  "sort_by_key rfc ls =
     sort_key (\<lambda>l. rfc (lease_updated_at l))
       (sort_key lease_pool_ref (sort_key lease_ip_address ls))"

definition dhcp_lease_feed ::
  "failures \<Rightarrow> (time \<Rightarrow> string) \<Rightarrow> dhcp_store \<Rightarrow> string \<Rightarrow> nat \<Rightarrow> lease_feed dhcp_result" where
  "dhcp_lease_feed fails rfc st c limit =
     (if fails Q_feed then Inl Surreal
      else
        let recs = take limit (sort_by_key rfc
                     (filter (\<lambda>l. after_cursor (split_lease_cursor c) (feed_key rfc l)) (leases st)))
        in Inr \<lparr>feed_leases = recs,
                feed_cursor = (if recs = [] then c else show_cursor (feed_key rfc (last recs)))\<rparr>)"

text \<open>A pull pass of a peer: \<^verbatim>\<open>dhcp_pull_once\<close> of \<^verbatim>\<open>magnetite-server/src/repl.rs\<close> on the feed it was
  served. The store's record ids are drawn from \<open>ids\<close>.\<close>

fun apply_all ::
  "failures \<Rightarrow> (nat \<Rightarrow> string) \<Rightarrow> nat \<Rightarrow> dhcp_store \<Rightarrow> lease list \<Rightarrow> nat
   \<Rightarrow> dhcp_store \<times> nat dhcp_result" where
  "apply_all fails ids k st [] applied = (st, Inr applied)"
| "apply_all fails ids k st (l # ls) applied =
     then_s (apply_replicated_lease fails (ids k) st l) (\<lambda>st1 wrote.
       apply_all fails ids (Suc k) st1 ls (if wrote then Suc applied else applied))"

definition dhcp_pull_once ::
  "failures \<Rightarrow> (nat \<Rightarrow> string) \<Rightarrow> time \<Rightarrow> (string \<Rightarrow> lease_feed dhcp_result) \<Rightarrow> dhcp_store
   \<Rightarrow> dhcp_store \<times> (nat \<times> nat) dhcp_result" where
  "dhcp_pull_once fails ids t fetch st =
     try_s st (get_dhcp_repl_cursor fails st) (\<lambda>c.
     try_s st (fetch c) (\<lambda>feed.
     then_s (apply_all fails ids 0 st (feed_leases feed) 0) (\<lambda>st1 applied.
     then_s (set_dhcp_repl_cursor fails t st1 (feed_cursor feed)) (\<lambda>st2 _.
       (st2, Inr (length (feed_leases feed), applied))))))"

section \<open>One lease per address\<close>

definition lease_key :: "lease \<Rightarrow> string \<times> string" where
  "lease_key l = (lease_pool_ref l, lease_ip_address l)"

definition lease_keys_unique :: "dhcp_store \<Rightarrow> bool" where
  "lease_keys_unique st \<longleftrightarrow> distinct (map lease_key (leases st))"

lemma same_key_iff: "same_key l k \<longleftrightarrow> lease_key k = lease_key l"
  by (auto simp: same_key_def lease_key_def)

lemma lease_key_updates [simp]:
  "lease_key (l\<lparr>lease_id := i\<rparr>) = lease_key l"
  "lease_key (l\<lparr>lease_st := s, lease_updated_at := t\<rparr>) = lease_key l"
  by (simp_all add: lease_key_def)

lemma distinct_upsert:
  "distinct (map f xs) \<Longrightarrow> f y = k \<Longrightarrow> distinct (map f (filter (\<lambda>x. f x \<noteq> k) xs @ [y]))"
  by (auto simp: distinct_map inj_on_def)

lemma distinct_map_filter: "distinct (map f xs) \<Longrightarrow> distinct (map f (filter P xs))"
  by (simp add: distinct_map inj_on_def)

lemma upsert_lease_keys:
  "lease_keys_unique st \<Longrightarrow> lease_keys_unique (fst (upsert_lease fails i st l))"
  using distinct_upsert [of lease_key "leases st" "l\<lparr>lease_id := i\<rparr>" "lease_key l"]
  by (simp add: upsert_lease_def lease_keys_unique_def same_key_iff Let_def distinct_map_filter)

lemma map_leases_keys:
  "lease_keys_unique st \<Longrightarrow> (\<And>l. lease_key (f l) = lease_key l) \<Longrightarrow>
   lease_keys_unique (st\<lparr>leases := map f (leases st)\<rparr>)"
  by (simp add: lease_keys_unique_def comp_def)

lemma lease_keys_release:
  "lease_keys_unique st \<Longrightarrow> lease_keys_unique (fst (release_lease fails t st i))"
  by (simp add: release_lease_def map_leases_keys split: try_s_split)

lemma lease_keys_expire:
  "lease_keys_unique st \<Longrightarrow> lease_keys_unique (fst (expire_stale_leases fails rfc t st))"
  by (simp add: expire_stale_leases_def map_leases_keys)

lemma lease_keys_apply:
  assumes "lease_keys_unique st"
  shows "lease_keys_unique (fst (apply_replicated_lease fails i st l))"
proof -
  obtain st1 r where u: "upsert_lease fails i st l = (st1, r)" by fastforce
  then have "lease_keys_unique st1" using upsert_lease_keys [OF assms, of fails i l] by simp
  with u assms show ?thesis
    by (cases r) (simp_all add: apply_replicated_lease_def Let_def)
qed

lemma lease_keys_delete_pool:
  "lease_keys_unique st \<Longrightarrow> lease_keys_unique (fst (delete_pool fails st i))"
  by (simp add: delete_pool_def Let_def lease_keys_unique_def distinct_map_filter split: try_s_split)

lemma lease_keys_config: "lease_keys_unique st \<Longrightarrow> lease_keys_unique (fst (get_dhcp_config fails st))"
  by (simp add: get_dhcp_config_def lease_keys_unique_def split: list.splits)

text \<open>So the leases of a pool, as the allocator reads them, have one holder per address.\<close>

lemma list_leases_unique_holders:
  assumes "lease_keys_unique st" and "list_leases fails st (Some p) = Inr ls"
  shows "unique_holders ls"
proof -
  let ?ls = "filter (\<lambda>l. lease_pool_ref l = p) (leases st)"
  have "inj_on lease_ip_address (set ?ls)"
    using assms(1) by (auto simp: lease_keys_unique_def distinct_map inj_on_def lease_key_def)
  moreover have "distinct ?ls" using assms(1) by (simp add: lease_keys_unique_def distinct_map)
  moreover have "set ls = set ?ls" "distinct ls = distinct ?ls"
    using assms(2) by (auto simp: list_leases_def split: if_splits)
  ultimately show ?thesis
    by (auto simp: unique_holders_def distinct_map inj_on_def)
qed

lemma list_leases_set:
  "list_leases fails st (Some p) = Inr ls \<Longrightarrow>
   l \<in> set ls \<longleftrightarrow> l \<in> set (leases st) \<and> lease_pool_ref l = p"
  by (auto simp: list_leases_def split: if_splits)

section \<open>Disjoint pools\<close>

lemma overlaps_sym: "overlaps p q = overlaps q p"
  by (auto simp: overlaps_def intervals_overlap_def split: option.splits)

lemma overlaps_cong:
  assumes "v4_range p = v4_range p'" and "v6_range p = v6_range p'"
  shows "overlaps p q = overlaps p' q"
  using assms by (simp add: overlaps_def)

lemma ranges_ignore_stamps [simp]:
  "v4_range (p\<lparr>pool_id := i\<rparr>) = v4_range p" "v6_range (p\<lparr>pool_id := i\<rparr>) = v6_range p"
  "v4_range (p\<lparr>pool_created_at := t\<rparr>) = v4_range p" "v6_range (p\<lparr>pool_created_at := t\<rparr>) = v6_range p"
  "v4_range (p\<lparr>pool_updated_at := t\<rparr>) = v4_range p" "v6_range (p\<lparr>pool_updated_at := t\<rparr>) = v6_range p"
  by (simp_all add: v4_range_def v6_range_def cong: option.case_cong)

definition pools_disjoint :: "dhcp_store \<Rightarrow> bool" where
  "pools_disjoint st \<longleftrightarrow> distinct (map pool_id (pools st)) \<and>
     (\<forall>p \<in> set (pools st). \<forall>q \<in> set (pools st). pool_id p \<noteq> pool_id q \<longrightarrow> \<not> overlaps p q)"

lemma check_range_overlap_Inr:
  assumes "check_range_overlap fails st p ex = Inr u"
  shows "\<forall>q \<in> set (pools st). ex \<noteq> Some (pool_id q) \<longrightarrow> \<not> overlaps p q"
  using assms
  by (auto simp: check_range_overlap_def list_pools_def list_ex_iff try_r_Inr_iff split: if_splits)

lemma create_pool_disjoint:
  assumes "pools_disjoint st" and "new_id \<notin> pool_id ` set (pools st)"
  shows "pools_disjoint (fst (create_pool fails t new_id st p))"
proof -
  let ?row = "p\<lparr>pool_id := new_id, pool_created_at := t, pool_updated_at := t\<rparr>"
  have "pools_disjoint (st\<lparr>pools := pools st @ [?row]\<rparr>)"
    if "check_range_overlap fails st p None = Inr u" for u
  proof -
    have "\<not> overlaps ?row q" if "q \<in> set (pools st)" for q
      using check_range_overlap_Inr [OF \<open>check_range_overlap fails st p None = Inr u\<close>] that
        overlaps_cong [of ?row p q] by simp
    then show ?thesis
      using assms overlaps_sym by (auto simp: pools_disjoint_def)
  qed
  then show ?thesis
    using assms(1) by (simp add: create_pool_def Let_def split: try_s_split)
qed

lemma update_pool_disjoint:
  assumes "pools_disjoint st"
  shows "pools_disjoint (fst (update_pool fails t st p))"
proof -
  let ?row = "p\<lparr>pool_created_at := t, pool_updated_at := t\<rparr>"
  let ?f = "\<lambda>q. if pool_id q = pool_id p then ?row else q"
  have "pools_disjoint (st\<lparr>pools := map ?f (pools st)\<rparr>)"
    if c: "check_range_overlap fails st p (Some (pool_id p)) = Inr u" for u
  proof -
    have ids: "pool_id (?f q) = pool_id q" for q by simp
    then have "map pool_id (map ?f (pools st)) = map pool_id (pools st)" by simp
    then have d: "distinct (map pool_id (map ?f (pools st)))"
      using assms by (simp only: pools_disjoint_def)
    have new: "\<not> overlaps ?row q" if "q \<in> set (pools st)" "pool_id q \<noteq> pool_id p" for q
      using check_range_overlap_Inr [OF c] that overlaps_cong [of ?row p q] by simp
    have "\<not> overlaps (?f a) (?f b)"
      if "a \<in> set (pools st)" "b \<in> set (pools st)" "pool_id a \<noteq> pool_id b" for a b
      using that new [of a] new [of b] assms overlaps_sym [of ?row a]
      by (simp add: pools_disjoint_def)
    with d ids show ?thesis by (simp add: pools_disjoint_def del: map_map if_image_distrib)
  qed
  then show ?thesis
    using assms by (simp add: update_pool_def Let_def split: try_s_split)
qed

lemma delete_pool_disjoint:
  "pools_disjoint st \<Longrightarrow> pools_disjoint (fst (delete_pool fails st i))"
  by (simp add: delete_pool_def Let_def pools_disjoint_def distinct_map_filter split: try_s_split)

text \<open>Pools that do not overlap share no address.\<close>

lemma disjoint_pools_address:
  assumes "\<not> overlaps p q" and "in_pool_range p ip"
  shows "\<not> in_pool_range q ip"
proof
  assume q: "in_pool_range q ip"
  consider (v4) n a b where "parse_ipv4 ip = Some n" "v4_range p = Some a" "v4_range q = Some b"
      "fst a \<le> n" "n \<le> snd a" "fst b \<le> n" "n \<le> snd b"
    | (v6) n a b where "parse_ipv6 ip = Some n" "v6_range p = Some a" "v6_range q = Some b"
      "fst a \<le> n" "n \<le> snd a" "fst b \<le> n" "n \<le> snd b"
    using assms(2) q by (fastforce simp: in_pool_range_def split: option.splits prod.splits)
  then have "overlaps p q"
    by cases (auto simp: overlaps_def intervals_overlap_def)
  with assms(1) show False ..
qed

section \<open>Replication\<close>

text \<open>The contract of a replica that keeps, for every key, the row with the newest stamp: applying
  a row makes its key at least as new as the row, never makes a key older, and does nothing when
  the replica is at least as new already.\<close>

locale newest_wins =
  fixes key :: "'r \<Rightarrow> 'k"
    and stamp :: "'r \<Rightarrow> 't :: linorder"
    and apply_row :: "'i \<Rightarrow> 'r list \<Rightarrow> 'r \<Rightarrow> 'r list"
  assumes apply_keys: "distinct (map key rs) \<Longrightarrow> distinct (map key (apply_row i rs r))"
    and apply_new: "distinct (map key rs) \<Longrightarrow>
          \<exists>q \<in> set (apply_row i rs r). key q = key r \<and> stamp r \<le> stamp q"
    and apply_mono: "distinct (map key rs) \<Longrightarrow> q \<in> set rs \<Longrightarrow>
          \<exists>q' \<in> set (apply_row i rs r). key q' = key q \<and> stamp q \<le> stamp q'"
    and apply_skip: "distinct (map key rs) \<Longrightarrow> q \<in> set rs \<Longrightarrow> key q = key r \<Longrightarrow>
          stamp r \<le> stamp q \<Longrightarrow> apply_row i rs r = rs"
begin

abbreviation apply_rows :: "'r list \<Rightarrow> ('i \<times> 'r) list \<Rightarrow> 'r list" where
  "apply_rows \<equiv> foldl (\<lambda>rs (i, r). apply_row i rs r)"

lemma rows_keys: "distinct (map key rs) \<Longrightarrow> distinct (map key (apply_rows rs b))"
  by (induction b arbitrary: rs) (auto simp: apply_keys)

lemma rows_mono:
  assumes "distinct (map key rs)" and "q \<in> set rs"
  shows "\<exists>q' \<in> set (apply_rows rs b). key q' = key q \<and> stamp q \<le> stamp q'"
  using assms
proof (induction b arbitrary: rs q)
  case Nil
  then show ?case by auto
next
  case (Cons x b)
  obtain i l where x: "x = (i, l)" by fastforce
  obtain q1 where q1: "q1 \<in> set (apply_row i rs l)" "key q1 = key q" "stamp q \<le> stamp q1"
    using apply_mono [OF Cons.prems, of i l] by blast
  obtain q2 where q2: "q2 \<in> set (apply_rows (apply_row i rs l) b)" "key q2 = key q1"
      "stamp q1 \<le> stamp q2"
    using Cons.IH [OF apply_keys [OF Cons.prems(1)] q1(1)] by blast
  show ?case
    by (rule bexI [of _ q2]) (use q1 q2 x order_trans [OF q1(3) q2(3)] in simp_all)
qed

lemma rows_new:
  assumes "distinct (map key rs)" and "l \<in> snd ` set b"
  shows "\<exists>q \<in> set (apply_rows rs b). key q = key l \<and> stamp l \<le> stamp q"
  using assms
proof (induction b arbitrary: rs)
  case Nil
  then show ?case by simp
next
  case (Cons x b)
  obtain i a where x: "x = (i, a)" by fastforce
  note d = apply_keys [OF Cons.prems(1), of i a]
  show ?case
  proof (cases "l = a")
    case True
    obtain q where q: "q \<in> set (apply_row i rs a)" "key q = key l" "stamp l \<le> stamp q"
      using apply_new [OF Cons.prems(1), of i a] True by blast
    obtain q' where q': "q' \<in> set (apply_rows (apply_row i rs a) b)" "key q' = key q"
      "stamp q \<le> stamp q'" using rows_mono [OF d q(1)] by blast
    show ?thesis
      by (rule bexI [of _ q']) (use q q' x order_trans [OF q(3) q'(3)] in simp_all)
  next
    case False
    with Cons d x show ?thesis by simp
  qed
qed

lemma rows_skip:
  assumes "distinct (map key rs)"
    and "\<forall>l \<in> snd ` set b. \<exists>q \<in> set rs. key q = key l \<and> stamp l \<le> stamp q"
  shows "apply_rows rs b = rs"
  using assms(2)
proof (induction b)
  case (Cons x b)
  obtain i l where x: "x = (i, l)" by fastforce
  with Cons obtain q where "q \<in> set rs" "key q = key l" "stamp l \<le> stamp q" by auto
  then have "apply_row i rs l = rs" by (intro apply_skip [OF assms(1)])
  with Cons x show ?case by simp
qed simp

text \<open>Applying a batch again changes nothing.\<close>

lemma rows_idem:
  assumes "distinct (map key rs)" and "snd ` set b' \<subseteq> snd ` set b"
  shows "apply_rows (apply_rows rs b) b' = apply_rows rs b"
proof (rule rows_skip [OF rows_keys [OF assms(1)]])
  show "\<forall>l \<in> snd ` set b'. \<exists>q \<in> set (apply_rows rs b). key q = key l \<and> stamp l \<le> stamp q"
    using rows_new [OF assms(1)] assms(2) by blast
qed

end

definition apply_lease_row :: "string \<Rightarrow> lease list \<Rightarrow> lease \<Rightarrow> lease list" where
  "apply_lease_row i rs l =
     leases (fst (apply_replicated_lease (\<lambda>_. False) i
       \<lparr>pools = [], reservations = [], leases = rs, configs = [], repl_states = [], logs = []\<rparr> l))"

lemma apply_lease_row_eq:
  "apply_lease_row i rs l =
     (if \<exists>cur. List.find (same_key l) rs = Some cur \<and> lease_updated_at l \<le> lease_updated_at cur
      then rs else filter (\<lambda>k. \<not> same_key l k) rs @ [l\<lparr>lease_id := i\<rparr>])"
  by (auto simp: apply_lease_row_def apply_replicated_lease_def upsert_lease_def Let_def
      split: option.splits)

lemma find_same_key:
  assumes "distinct (map lease_key rs)" and "q \<in> set rs" and "lease_key q = lease_key l"
  shows "List.find (same_key l) rs = Some q"
proof -
  have "List.find (same_key l) rs \<noteq> None"
    using assms(2,3) by (auto simp: find_None_iff_all same_key_iff)
  then obtain c where c: "List.find (same_key l) rs = Some c" by blast
  have "c \<in> set rs" "lease_key c = lease_key q"
    using find_SomeD [OF c] assms(3) by (simp_all add: same_key_iff)
  moreover have "inj_on lease_key (set rs)" using assms(1) by (simp add: distinct_map)
  ultimately have "c = q" using assms(2) by (metis inj_onD)
  with c show ?thesis by simp
qed

interpretation lease_replica: newest_wins lease_key lease_updated_at apply_lease_row
proof
  fix rs :: "lease list" and r q :: lease and i
  assume d: "distinct (map lease_key rs)"
  let ?rs = "apply_lease_row i rs r"
  show "distinct (map lease_key ?rs)"
    using d distinct_upsert [OF d, of "r\<lparr>lease_id := i\<rparr>"]
    by (simp add: apply_lease_row_eq same_key_iff)
  show "\<exists>q \<in> set ?rs. lease_key q = lease_key r \<and> lease_updated_at r \<le> lease_updated_at q"
    using find_SomeD [of "same_key r" rs]
    by (fastforce simp: apply_lease_row_eq same_key_iff)
  show "\<exists>q' \<in> set ?rs. lease_key q' = lease_key q \<and> lease_updated_at q \<le> lease_updated_at q'"
    if "q \<in> set rs"
    using that find_same_key [OF d that, of r]
    by (cases "lease_key q = lease_key r") (auto simp: apply_lease_row_eq same_key_iff)
  show "?rs = rs" if "q \<in> set rs" "lease_key q = lease_key r" "lease_updated_at r \<le> lease_updated_at q"
    using find_same_key [OF d that(1,2)] that(3) by (simp add: apply_lease_row_eq)
qed

text \<open>A pass of the peer is the batch of the feed's leases.\<close>

lemma apply_replicated_lease_rows:
  assumes "apply_replicated_lease fails i st l = (st', Inr w)"
  shows "leases st' = apply_lease_row i (leases st) l"
proof -
  have "\<not> fails Q_get_lease" using assms by (auto simp: apply_replicated_lease_def)
  then show ?thesis
    using assms
    by (auto simp: apply_replicated_lease_def apply_lease_row_eq upsert_lease_def Let_def
        split: if_splits option.splits)
qed

lemma apply_all_rows:
  assumes "apply_all fails ids k st ls n = (st', Inr m)"
  shows "\<exists>b. map snd b = ls \<and>
    leases st' = foldl (\<lambda>rs (i, r). apply_lease_row i rs r) (leases st) b"
  using assms
proof (induction fails ids k st ls n rule: apply_all.induct)
  case (1 fails ids k st applied)
  then show ?case by auto
next
  case (2 fails ids k st l ls applied)
  obtain st1 w where a: "apply_replicated_lease fails (ids k) st l = (st1, w)" by fastforce
  with "2.prems" obtain wrote where w: "w = Inr wrote" by (cases w) auto
  from 2 a w obtain b where "map snd b = ls"
    "leases st' = foldl (\<lambda>rs (i, r). apply_lease_row i rs r) (leases st1) b" by auto
  with apply_replicated_lease_rows [of fails "ids k" st l st1 wrote] a w show ?case
    by (intro exI [of _ "(ids k, l) # b"]) auto
qed

section \<open>The feed as pages of one order\<close>

lemma after_cursor_less: "after_cursor c k \<longleftrightarrow> c < k"
  by (auto simp: after_cursor_def less_prod_simp split: prod.splits)

lemma split_show_cursor:
  assumes "CHR ''|'' \<notin> set ts" and "CHR ''|'' \<notin> set p"
  shows "split_lease_cursor (show_cursor (ts, p, i)) = (ts, p, i)"
  using assms by (simp add: split_lease_cursor_def show_cursor_def split_once_append)

lemma set_sort_by_key [simp]: "set (sort_by_key rfc ls) = set ls"
  by (simp add: sort_by_key_def)

lemma distinct_sort_by_key [simp]: "distinct (sort_by_key rfc ls) = distinct ls"
  by (simp add: sort_by_key_def)

lemma sorted_sort_by_key: "sorted (map (feed_key rfc) (sort_by_key rfc ls))"
proof -
  let ?Q = "\<lambda>a b. lease_ip_address a < lease_ip_address b \<or> lease_ip_address a = lease_ip_address b \<and> True"
  let ?R = "\<lambda>a b. lease_pool_ref a < lease_pool_ref b \<or> lease_pool_ref a = lease_pool_ref b \<and> ?Q a b"
  let ?t = "\<lambda>l. rfc (lease_updated_at l)"
  have "sorted_wrt (\<lambda>_ _. True) ls" by (induction ls) simp_all
  then have "sorted_wrt ?Q (sort_key lease_ip_address ls)" by (rule sorted_wrt_sort_key)
  then have "sorted_wrt ?R (sort_key lease_pool_ref (sort_key lease_ip_address ls))"
    by (rule sorted_wrt_sort_key)
  then have "sorted_wrt (\<lambda>a b. ?t a < ?t b \<or> ?t a = ?t b \<and> ?R a b) (sort_by_key rfc ls)"
    unfolding sort_by_key_def by (rule sorted_wrt_sort_key)
  then show ?thesis
    unfolding sorted_map
    by (rule sorted_wrt_mono_rel [rotated]) (auto simp: feed_key_def less_eq_prod_simp)
qed

lemma feed_key_inj:
  assumes "lease_keys_unique st"
  shows "inj_on (feed_key rfc) (set (leases st))"
  using assms
  by (auto simp: lease_keys_unique_def distinct_map inj_on_def feed_key_def lease_key_def)

definition rows_after :: "(time \<Rightarrow> string) \<Rightarrow> dhcp_store \<Rightarrow> string \<times> string \<times> string \<Rightarrow> lease list" where
  "rows_after rfc st k = sort_by_key rfc (filter (\<lambda>l. after_cursor k (feed_key rfc l)) (leases st))"

lemma set_rows_after: "set (rows_after rfc st k) = {l \<in> set (leases st). k < feed_key rfc l}"
  by (simp add: rows_after_def after_cursor_less)

lemma rows_after_sorted:
  assumes "lease_keys_unique st"
  shows "sorted (map (feed_key rfc) (rows_after rfc st k))"
    and "distinct (map (feed_key rfc) (rows_after rfc st k))"
proof -
  show "sorted (map (feed_key rfc) (rows_after rfc st k))"
    by (simp add: rows_after_def sorted_sort_by_key)
  have "inj_on (feed_key rfc) (set (rows_after rfc st k))"
    using feed_key_inj [OF assms] by (rule inj_on_subset) (auto simp: set_rows_after)
  moreover have "distinct (rows_after rfc st k)"
    using assms by (simp add: rows_after_def lease_keys_unique_def distinct_map)
  ultimately show "distinct (map (feed_key rfc) (rows_after rfc st k))"
    by (simp add: distinct_map)
qed

text \<open>Restarting behind the last row of a page continues with the next row.\<close>

lemma rows_after_last:
  assumes "lease_keys_unique st" and "take n (rows_after rfc st k) \<noteq> []"
  defines "x \<equiv> last (take n (rows_after rfc st k))"
  shows "rows_after rfc st (feed_key rfc x) = drop n (rows_after rfc st k)"
proof -
  let ?K = "feed_key rfc" and ?S = "rows_after rfc st k"
  note so = rows_after_sorted [OF assms(1), of rfc]
  have x: "x \<in> set (take n ?S)" unfolding x_def using assms(2) by (rule last_in_set)
  have strict: "sorted_wrt (<) (map ?K (take n ?S) @ map ?K (drop n ?S))"
    unfolding map_append [symmetric] append_take_drop_id
    using so [of k] by (simp add: strict_sorted_iff)
  have hi: "?K x < ?K y" if "y \<in> set (drop n ?S)" for y
    using strict x that by (auto simp: sorted_wrt_append)
  have lo: "?K y \<le> ?K x" if "y \<in> set (take n ?S)" for y
  proof -
    have "sorted (map ?K (take n ?S))"
      using so(1) [of k] by (simp add: sorted_wrt_take flip: take_map)
    then show ?thesis unfolding x_def using that by (rule sorted_map_last)
  qed
  have "set (rows_after rfc st (?K x)) = set (drop n ?S)"
  proof -
    have "?K x < ?K l \<and> l \<in> set (leases st) \<longleftrightarrow> l \<in> set (drop n ?S)" for l
    proof
      assume l: "?K x < ?K l \<and> l \<in> set (leases st)"
      have "k < ?K x" using x by (auto simp: set_rows_after dest!: in_set_takeD)
      with l have "l \<in> set ?S" by (auto simp: set_rows_after)
      then have "l \<in> set (take n ?S) \<or> l \<in> set (drop n ?S)"
        by (metis Un_iff append_take_drop_id set_append)
      with lo [of l] l show "l \<in> set (drop n ?S)" by auto
    next
      assume l: "l \<in> set (drop n ?S)"
      with hi show "?K x < ?K l \<and> l \<in> set (leases st)"
        by (auto simp: set_rows_after dest!: in_set_dropD)
    qed
    then show ?thesis by (auto simp: set_rows_after)
  qed
  moreover have "sorted (map ?K (drop n ?S))" "distinct (map ?K (drop n ?S))"
    using so [of k] by (simp_all add: sorted_wrt_drop flip: drop_map)
  moreover have "inj_on ?K (set (rows_after rfc st (?K x)) \<union> set (drop n ?S))"
    using feed_key_inj [OF assms(1), of rfc] calculation(1)
    by (elim inj_on_subset) (auto simp: set_rows_after)
  ultimately show ?thesis
    using so [of "?K x"] map_sorted_distinct_set_unique by blast
qed

lemma dhcp_lease_feed_eq:
  "\<not> fails Q_feed \<Longrightarrow> dhcp_lease_feed fails rfc st c n =
     Inr \<lparr>feed_leases = take n (rows_after rfc st (split_lease_cursor c)),
          feed_cursor = (if take n (rows_after rfc st (split_lease_cursor c)) = [] then c
                         else show_cursor (feed_key rfc
                                (last (take n (rows_after rfc st (split_lease_cursor c))))))\<rparr>"
  by (simp add: dhcp_lease_feed_def rows_after_def Let_def)

lemma feed_page_split:
  assumes "lease_keys_unique st"
    and "\<forall>l \<in> set (leases st). CHR ''|'' \<notin> set (lease_pool_ref l)"
    and "\<forall>t. CHR ''|'' \<notin> set (rfc t)"
    and "dhcp_lease_feed fails rfc st c n = Inr f"
    and "dhcp_lease_feed fails rfc st (feed_cursor f) m = Inr g"
  shows "dhcp_lease_feed fails rfc st c (n + m) =
           Inr \<lparr>feed_leases = feed_leases f @ feed_leases g, feed_cursor = feed_cursor g\<rparr>"
proof -
  have q: "\<not> fails Q_feed" using assms(4) by (auto simp: dhcp_lease_feed_def)
  define S where "S = rows_after rfc st (split_lease_cursor c)"
  define x where "x = last (take n S)"
  show ?thesis
  proof (cases "take n S = []")
    case True
    then have "n = 0 \<or> S = []" by auto
    with True assms(4,5) q show ?thesis
      by (auto simp: dhcp_lease_feed_eq S_def [symmetric])
  next
    case False
    have "x \<in> set (leases st)"
      using last_in_set [OF False] unfolding x_def S_def
      by (auto simp: set_rows_after dest!: in_set_takeD)
    then have "split_lease_cursor (show_cursor (feed_key rfc x)) = feed_key rfc x"
      using assms(2,3) by (simp add: feed_key_def split_show_cursor)
    moreover have "feed_cursor f = show_cursor (feed_key rfc x)" "feed_leases f = take n S"
      using assms(4) q False by (auto simp: dhcp_lease_feed_eq S_def x_def)
    moreover have "rows_after rfc st (feed_key rfc x) = drop n S"
      using rows_after_last [OF assms(1)] False unfolding x_def S_def by blast
    ultimately have g: "g = \<lparr>feed_leases = take m (drop n S), feed_cursor =
        (if take m (drop n S) = [] then show_cursor (feed_key rfc x)
         else show_cursor (feed_key rfc (last (take m (drop n S)))))\<rparr>"
      using assms(5) q by (auto simp: dhcp_lease_feed_eq)
    have "take (n + m) S = take n S @ take m (drop n S)" by (rule take_add)
    with g \<open>feed_leases f = take n S\<close> q False show ?thesis
      by (simp add: dhcp_lease_feed_eq S_def [symmetric] x_def)
  qed
qed

lemma leases_set_cursor [simp]: "leases (fst (set_dhcp_repl_cursor fails t st c)) = leases st"
  by (simp add: set_dhcp_repl_cursor_def)

lemma get_set_cursor:
  assumes "set_dhcp_repl_cursor fails t st c = (st', Inr ())" and "\<not> fails' Q_get_cursor"
  shows "get_dhcp_repl_cursor fails' st' = Inr c"
  using assms
  by (auto simp: set_dhcp_repl_cursor_def get_dhcp_repl_cursor_def split: if_splits list.splits)

lemma pull_once_parts:
  assumes "dhcp_pull_once fails ids t fetch st = (st', Inr (n, m))"
  obtains c feed st1 where "get_dhcp_repl_cursor fails st = Inr c" "fetch c = Inr feed"
    "apply_all fails ids 0 st (feed_leases feed) 0 = (st1, Inr m)" "n = length (feed_leases feed)"
    "set_dhcp_repl_cursor fails t st1 (feed_cursor feed) = (st', Inr ())"
proof -
  from assms obtain c where c: "get_dhcp_repl_cursor fails st = Inr c"
    by (cases "get_dhcp_repl_cursor fails st") (simp_all add: dhcp_pull_once_def)
  with assms obtain feed where f: "fetch c = Inr feed"
    by (cases "fetch c") (simp_all add: dhcp_pull_once_def)
  obtain st1 r where a: "apply_all fails ids 0 st (feed_leases feed) 0 = (st1, r)" by fastforce
  with assms c f obtain k where r: "r = Inr k" by (cases r) (simp_all add: dhcp_pull_once_def)
  obtain st2 r2 where u: "set_dhcp_repl_cursor fails t st1 (feed_cursor feed) = (st2, r2)" by fastforce
  with assms c f a r have "r2 = Inr ()" by (cases r2) (simp_all add: dhcp_pull_once_def)
  with assms c f a r u show thesis by (intro that) (simp_all add: dhcp_pull_once_def)
qed

section \<open>Properties\<close>

text \<open>The administration of pools, reservations and leases; record ids are fresh, as the database
  assigns them.\<close>

inductive dhcp_admin_step :: "dhcp_store \<Rightarrow> dhcp_store \<Rightarrow> bool" where
  CreatePool: "new_id \<notin> pool_id ` set (pools st) \<Longrightarrow>
     dhcp_admin_step st (fst (create_pool fails t new_id st p))"
| UpdatePool: "dhcp_admin_step st (fst (update_pool fails t st p))"
| DeletePool: "dhcp_admin_step st (fst (delete_pool fails st i))"
| CreateReservation: "dhcp_admin_step st (fst (create_reservation fails t new_id st r))"
| DeleteReservation: "dhcp_admin_step st (fst (delete_reservation fails st i))"
| ReleaseLease: "dhcp_admin_step st (fst (release_lease fails t st i))"
| SaveConfig: "dhcp_admin_step st (fst (save_dhcp_config fails st c))"

definition empty_dhcp_store :: dhcp_store where
  "empty_dhcp_store = \<lparr>pools = [], reservations = [], leases = [], configs = [], repl_states = [],
     logs = []\<rparr>"

lemma pools_unchanged [simp]:
  "pools (fst (create_reservation fails t i st r)) = pools st"
  "pools (fst (delete_reservation fails st i)) = pools st"
  "pools (fst (release_lease fails t st i)) = pools st"
  "pools (fst (save_dhcp_config fails st c)) = pools st"
proof -
  show "pools (fst (create_reservation fails t i st r)) = pools st"
    by (simp add: create_reservation_def Let_def split: try_s_split)
  show "pools (fst (delete_reservation fails st i)) = pools st"
    by (simp add: delete_reservation_def)
  show "pools (fst (release_lease fails t st i)) = pools st"
    by (simp add: release_lease_def split: try_s_split)
  show "pools (fst (save_dhcp_config fails st c)) = pools st"
    by (simp add: save_dhcp_config_def get_dhcp_config_def split: list.split)
qed

lemma dhcp_admin_step_disjoint:
  "dhcp_admin_step st st' \<Longrightarrow> pools_disjoint st \<Longrightarrow> pools_disjoint st'"
proof (induction rule: dhcp_admin_step.induct)
  case (CreatePool new_id st fails t p)
  then show ?case by (intro create_pool_disjoint)
next
  case (UpdatePool st fails t p)
  then show ?case by (rule update_pool_disjoint)
next
  case (DeletePool st fails i)
  then show ?case by (rule delete_pool_disjoint)
qed (simp_all add: pools_disjoint_def)

text \<open>\<^bold>\<open>C11.\<close> Pools never share an address. In every store reached by administering pools,
  reservations and leases from an empty one, two different pools have no address in common, of
  either family.\<close>

theorem pools_share_no_address:
  assumes "dhcp_admin_step\<^sup>*\<^sup>* empty_dhcp_store st"
    and "p \<in> set (pools st)" and "q \<in> set (pools st)" and "pool_id p \<noteq> pool_id q"
  shows "\<not> (in_pool_range p ip \<and> in_pool_range q ip)"
proof -
  have "pools_disjoint empty_dhcp_store" by (simp add: pools_disjoint_def empty_dhcp_store_def)
  with assms(1) have "pools_disjoint st"
    by (induction rule: rtranclp_induct) (auto intro: dhcp_admin_step_disjoint)
  with assms(2-4) show ?thesis
    using disjoint_pools_address [of p q ip] by (auto simp: pools_disjoint_def)
qed

definition demo_pool :: "string \<Rightarrow> string \<Rightarrow> string \<Rightarrow> pool" where
  "demo_pool nm s e = \<lparr>pool_id = [], pool_created_at = 0, pool_updated_at = 0,
     pool_created_by = ''admin'', pool_name = nm, subnet_v4 = Some ''192.0.2.0/24'',
     range_start_v4 = Some s, range_end_v4 = Some e, subnet_v6 = None, range_start_v6 = None,
     range_end_v6 = None, gateway = Some ''192.0.2.1'', dns_servers = [], domain_name = None,
     lease_duration_secs = Some 3600, pool_enabled = True\<rparr>"

definition demo_pools :: dhcp_store where
  "demo_pools =
     fst (create_pool (\<lambda>_. False) 6 ''p2''
       (fst (create_pool (\<lambda>_. False) 5 ''p1'' empty_dhcp_store
          (demo_pool ''lan'' ''192.0.2.10'' ''192.0.2.12'')))
       (demo_pool ''lab'' ''192.0.2.20'' ''192.0.2.22''))"

lemma demo_parse:
  "parse_ipv4 ''192.0.2.10'' = Some 0xC000020A" "parse_ipv4 ''192.0.2.12'' = Some 0xC000020C"
  "parse_ipv4 ''192.0.2.20'' = Some 0xC0000214" "parse_ipv4 ''192.0.2.22'' = Some 0xC0000216"
  by (simp_all add: parse_ipv4_eval)

lemma demo_ranges:
  "v4_range (demo_pool nm ''192.0.2.10'' ''192.0.2.12'') = Some (0xC000020A, 0xC000020C)"
  "v4_range (demo_pool nm ''192.0.2.20'' ''192.0.2.22'') = Some (0xC0000214, 0xC0000216)"
  "v6_range (demo_pool nm s e) = None"
  by (simp_all add: v4_range_def v6_range_def demo_pool_def demo_parse)

lemma demo_pools_eq:
  "pools demo_pools =
     [(demo_pool ''lan'' ''192.0.2.10'' ''192.0.2.12'')
        \<lparr>pool_id := ''p1'', pool_created_at := 5, pool_updated_at := 5\<rparr>,
      (demo_pool ''lab'' ''192.0.2.20'' ''192.0.2.22'')
        \<lparr>pool_id := ''p2'', pool_created_at := 6, pool_updated_at := 6\<rparr>]"
  by (simp add: demo_pools_def create_pool_def check_range_overlap_def list_pools_def
      empty_dhcp_store_def overlaps_def demo_ranges intervals_overlap_def Let_def)
    (simp add: demo_pool_def)

lemma demo_pools_reachable: "dhcp_admin_step\<^sup>*\<^sup>* empty_dhcp_store demo_pools"
proof -
  let ?st1 = "fst (create_pool (\<lambda>_. False) 5 ''p1'' empty_dhcp_store
     (demo_pool ''lan'' ''192.0.2.10'' ''192.0.2.12''))"
  have "dhcp_admin_step empty_dhcp_store ?st1"
    by (rule CreatePool) (simp add: empty_dhcp_store_def)
  moreover have "dhcp_admin_step ?st1 demo_pools"
    unfolding demo_pools_def
    by (rule CreatePool) (simp add: empty_dhcp_store_def create_pool_def check_range_overlap_def
        list_pools_def Let_def)
  ultimately show ?thesis by (meson rtranclp.simps)
qed

theorem pools_share_no_address_witness:
  "\<not> (in_pool_range (pools demo_pools ! 0) ''192.0.2.11'' \<and>
      in_pool_range (pools demo_pools ! 1) ''192.0.2.11'')"
  by (rule pools_share_no_address [OF demo_pools_reachable]) (simp_all add: demo_pools_eq)

text \<open>\<^bold>\<open>C12.\<close> The lease feed can be paged. Over an unchanged store, asking for \<open>n\<close> rows and then, with
  the cursor that came back, for \<open>m\<close> more gives exactly the rows and the cursor of asking for
  \<open>n + m\<close> at once, also when several leases carry the same time stamp: no lease is skipped or
  served twice. (A time stamp and a pool id contain no bar, and leases are unique per address.)\<close>

theorem feed_pages:
  assumes "lease_keys_unique st"
    and "\<forall>l \<in> set (leases st). CHR ''|'' \<notin> set (lease_pool_ref l)"
    and "\<forall>t. CHR ''|'' \<notin> set (rfc t)"
    and "dhcp_lease_feed fails rfc st c n = Inr f"
    and "dhcp_lease_feed fails rfc st (feed_cursor f) m = Inr g"
  shows "dhcp_lease_feed fails rfc st c (n + m) =
           Inr \<lparr>feed_leases = feed_leases f @ feed_leases g, feed_cursor = feed_cursor g\<rparr>"
  using assms by (rule feed_page_split)

definition demo_lease :: "string \<Rightarrow> time \<Rightarrow> lease" where
  "demo_lease ip t = \<lparr>lease_id = ip, lease_created_at = t, lease_updated_at = t,
     lease_created_by = ''dhcp'', lease_pool_ref = ''p1'', lease_ip_address = ip,
     lease_mac_address = Some ''aa:bb:cc:00:00:01'', lease_client_id = None, lease_hostname = None,
     lease_st = Active, lease_start = t, lease_expiry = t + 100, last_renewal = None,
     protocol_version = ProtoV4\<rparr>"

definition demo_leases :: dhcp_store where
  "demo_leases = empty_dhcp_store\<lparr>leases := [demo_lease ''192.0.2.11'' 7, demo_lease ''192.0.2.10'' 7]\<rparr>"

definition demo_rfc :: "time \<Rightarrow> string" where
  "demo_rfc t = show_nat (nat t)"

lemma demo_rfc_no_bar: "\<forall>t. CHR ''|'' \<notin> set (demo_rfc t)"
proof
  fix t
  have "list_all is_ascii_digit (demo_rfc t)" by (simp add: demo_rfc_def show_nat_digits)
  then show "CHR ''|'' \<notin> set (demo_rfc t)" by (auto simp: list_all_iff ascii_defs)
qed

theorem feed_pages_witness:
  "\<exists>f g. dhcp_lease_feed (\<lambda>_. False) demo_rfc demo_leases [] 1 = Inr f \<and>
     dhcp_lease_feed (\<lambda>_. False) demo_rfc demo_leases (feed_cursor f) 1 = Inr g \<and>
     dhcp_lease_feed (\<lambda>_. False) demo_rfc demo_leases [] (1 + 1) =
       Inr \<lparr>feed_leases = feed_leases f @ feed_leases g, feed_cursor = feed_cursor g\<rparr>"
proof -
  obtain f where f: "dhcp_lease_feed (\<lambda>_. False) demo_rfc demo_leases [] 1 = Inr f"
    by (simp add: dhcp_lease_feed_eq)
  obtain g where g: "dhcp_lease_feed (\<lambda>_. False) demo_rfc demo_leases (feed_cursor f) 1 = Inr g"
    by (simp add: dhcp_lease_feed_eq)
  have "lease_keys_unique demo_leases"
    by (simp add: lease_keys_unique_def demo_leases_def demo_lease_def lease_key_def)
  moreover have "\<forall>l \<in> set (leases demo_leases). CHR ''|'' \<notin> set (lease_pool_ref l)"
    by (simp add: demo_leases_def demo_lease_def)
  ultimately show ?thesis using feed_pages [OF _ _ demo_rfc_no_bar f g] f g by blast
qed


definition demo_feed :: lease_feed where
  "demo_feed = \<lparr>feed_leases = [demo_lease ''192.0.2.10'' 9], feed_cursor = ''9|p1|192.0.2.10''\<rparr>"

lemma demo_pull:
  "dhcp_pull_once (\<lambda>_. False) (\<lambda>_. ''n'') 9 (\<lambda>_. Inr demo_feed) demo_leases =
     (demo_leases\<lparr>leases := [demo_lease ''192.0.2.11'' 7, (demo_lease ''192.0.2.10'' 9)\<lparr>lease_id := ''n''\<rparr>],
        repl_states := [\<lparr>repl_cursor = ''9|p1|192.0.2.10'', repl_last_sync = Some 9\<rparr>]\<rparr>, Inr (1, 1))"
  by (simp add: dhcp_pull_once_def get_dhcp_repl_cursor_def demo_feed_def demo_leases_def
      empty_dhcp_store_def apply_replicated_lease_def same_key_def demo_lease_def upsert_lease_def
      set_dhcp_repl_cursor_def Let_def)


end
