(* ===== verification/Dhcp_Service.thy ===== *)
theory Dhcp_Service
  imports Dhcp_Store
begin

text \<open>
  The DHCPv4 server: the message helpers of \<^verbatim>\<open>magnetite-dhcp/src/wire.rs\<close> and the DORA handler of
  \<^verbatim>\<open>service.rs\<close>, over the allocator of \<open>Dhcp_Alloc\<close> and the repository of \<open>Dhcp_Store\<close>.

  A \<^verbatim>\<open>dhcproto\<close> message is the record of the values its accessors return; decoding and encoding of
  datagrams, and the default message replies start from, are parameters. The handler's result is
  the new store and, when a reply is sent, its bytes and its destination.
\<close>

section \<open>Messages\<close>

datatype opcode = BootRequest | BootReply | OtherOpcode u8

datatype message_type =
  Discover | Offer | Request | Decline | Ack | Nak | Release | Inform | OtherType u8

datatype dhcp_option =
  OptMessageType message_type | ServerIdentifier ipv4 | AddressLeaseTime u32 | Renewal u32
| Rebinding u32 | SubnetMask ipv4 | Router "ipv4 list" | DomainNameServer "ipv4 list"
| DomainName string | RequestedIpAddress ipv4 | Hostname string | OtherOption u8

datatype option_code =
  CMessageType | CServerIdentifier | CAddressLeaseTime | CRenewal | CRebinding | CSubnetMask
| CRouter | CDomainNameServer | CDomainName | CRequestedIpAddress | CHostname | COther u8

fun code_of :: "dhcp_option \<Rightarrow> option_code" where
  "code_of (OptMessageType _) = CMessageType"
| "code_of (ServerIdentifier _) = CServerIdentifier"
| "code_of (AddressLeaseTime _) = CAddressLeaseTime"
| "code_of (Renewal _) = CRenewal"
| "code_of (Rebinding _) = CRebinding"
| "code_of (SubnetMask _) = CSubnetMask"
| "code_of (Router _) = CRouter"
| "code_of (DomainNameServer _) = CDomainNameServer"
| "code_of (DomainName _) = CDomainName"
| "code_of (RequestedIpAddress _) = CRequestedIpAddress"
| "code_of (Hostname _) = CHostname"
| "code_of (OtherOption c) = COther c"

record message =
  m_opcode :: opcode
  m_xid :: u32
  m_broadcast :: bool
  m_flags :: u16
  m_ciaddr :: ipv4
  m_yiaddr :: ipv4
  m_siaddr :: ipv4
  m_giaddr :: ipv4
  m_chaddr :: "u8 list"
  m_opts :: "option_code \<Rightarrow> dhcp_option option"

definition insert_opt :: "dhcp_option \<Rightarrow> message \<Rightarrow> message" where
  "insert_opt x m = m\<lparr>m_opts := (m_opts m)(code_of x \<mapsto> x)\<rparr>"

text \<open>The codec, \<^verbatim>\<open>dhcproto\<close>.\<close>

record codec =
  from_bytes :: "u8 list \<Rightarrow> message option"
  to_vec :: "message \<Rightarrow> u8 list option"
  default_message :: message

type_synonym socket_addr = "ipv4 \<times> u16"

section \<open>wire.rs\<close>

definition decode :: "codec \<Rightarrow> u8 list \<Rightarrow> message option" where
  "decode cd bytes =
     (case from_bytes cd bytes of
        None \<Rightarrow> None
      | Some m \<Rightarrow> if m_opcode m = BootRequest then Some m else None)"

definition msg_type :: "message \<Rightarrow> message_type option" where
  "msg_type m = (case m_opts m CMessageType of Some (OptMessageType t) \<Rightarrow> Some t | _ \<Rightarrow> None)"

definition hex_digit :: "nat \<Rightarrow> char" where
  "hex_digit n = (if n < 10 then char_of (48 + n) else char_of (87 + n))"

definition hex2 :: "u8 \<Rightarrow> string" where
  "hex2 b = [hex_digit (unat b div 16), hex_digit (unat b mod 16)]"

definition client_mac :: "message \<Rightarrow> string" where
  "client_mac m =
     (if 6 \<le> length (m_chaddr m) then join_with CHR '':'' (map hex2 (take 6 (m_chaddr m)))
      else ''unknown'')"

definition requested_ip :: "message \<Rightarrow> ipv4 option" where
  "requested_ip m = (case m_opts m CRequestedIpAddress of Some (RequestedIpAddress ip) \<Rightarrow> Some ip | _ \<Rightarrow> None)"

definition hostname :: "message \<Rightarrow> string option" where
  "hostname m = (case m_opts m CHostname of Some (Hostname n) \<Rightarrow> Some n | _ \<Rightarrow> None)"

definition broadcast_addr :: socket_addr where
  "broadcast_addr = (- 1, 68)"

definition reply_destination :: "message \<Rightarrow> socket_addr" where
  "reply_destination m =
     (if m_giaddr m \<noteq> ipv4_unspecified then (m_giaddr m, 67)
      else if m_broadcast m \<or> m_ciaddr m = ipv4_unspecified then broadcast_addr
      else (m_ciaddr m, 68))"

definition subnet_mask :: "pool \<Rightarrow> ipv4 option" where
  "subnet_mask p =
     (case subnet_v4 p of
        None \<Rightarrow> None
      | Some c \<Rightarrow>
          (case split_on CHR ''/'' c of
             _ # pfx # _ \<Rightarrow>
               (case parse_uint (2 ^ 32 - 1) pfx of
                  None \<Rightarrow> None
                | Some n \<Rightarrow> if 32 < n then None else Some (prefix_mask n))
           | _ \<Rightarrow> None))"

definition parse_all :: "string list \<Rightarrow> ipv4 list" where
  "parse_all vs = List.map_filter parse_ipv4 vs"

definition or_else :: "'a option \<Rightarrow> 'a option \<Rightarrow> 'a option" where
  "or_else a b = (case a of Some x \<Rightarrow> Some x | None \<Rightarrow> b)"

definition insert_opt_if :: "dhcp_option option \<Rightarrow> message \<Rightarrow> message" where
  "insert_opt_if x m = (case x of None \<Rightarrow> m | Some d \<Rightarrow> insert_opt d m)"

definition reply_message ::
  "codec \<Rightarrow> message \<Rightarrow> message_type \<Rightarrow> ipv4 \<Rightarrow> pool \<Rightarrow> dhcp_config \<Rightarrow> ipv4 \<Rightarrow> u32 \<Rightarrow> message" where
  "reply_message cd req mtype yiaddr p cfg server_ip secs =
     (let m0 = (default_message cd)\<lparr>m_opcode := BootReply, m_xid := m_xid req, m_yiaddr := yiaddr,
                 m_siaddr := server_ip, m_chaddr := m_chaddr req, m_broadcast := m_broadcast req,
                 m_flags := m_flags req, m_giaddr := m_giaddr req\<rparr>;
          m1 = insert_opt (OptMessageType mtype) m0;
          m2 = insert_opt (ServerIdentifier server_ip) m1;
          m3 = insert_opt (AddressLeaseTime secs) m2;
          m4 = insert_opt (Renewal (secs div 2)) m3;
          m5 = insert_opt (Rebinding (secs * 7 div 8)) m4;
          m6 = insert_opt_if (map_option SubnetMask (subnet_mask p)) m5;
          m7 = insert_opt_if (map_option (\<lambda>g. Router [g]) (Option.bind (gateway p) parse_ipv4)) m6;
          dns = (if dns_servers p = [] then parse_all (default_dns_servers cfg)
                 else parse_all (dns_servers p));
          m8 = insert_opt_if (if dns = [] then None else Some (DomainNameServer dns)) m7
      in insert_opt_if (map_option DomainName (or_else (domain_name p) (default_domain_name cfg))) m8)"

definition build_reply ::
  "codec \<Rightarrow> message \<Rightarrow> message_type \<Rightarrow> ipv4 \<Rightarrow> pool \<Rightarrow> dhcp_config \<Rightarrow> ipv4 \<Rightarrow> u32 \<Rightarrow> u8 list option" where
  "build_reply cd req mtype yiaddr p cfg server_ip secs =
     to_vec cd (reply_message cd req mtype yiaddr p cfg server_ip secs)"

definition nak_message :: "codec \<Rightarrow> message \<Rightarrow> ipv4 \<Rightarrow> message" where
  "nak_message cd req server_ip =
     insert_opt (ServerIdentifier server_ip) (insert_opt (OptMessageType Nak)
       ((default_message cd)\<lparr>m_opcode := BootReply, m_xid := m_xid req, m_chaddr := m_chaddr req,
          m_broadcast := m_broadcast req, m_flags := m_flags req, m_giaddr := m_giaddr req\<rparr>))"

definition build_nak :: "codec \<Rightarrow> message \<Rightarrow> ipv4 \<Rightarrow> u8 list option" where
  "build_nak cd req server_ip = to_vec cd (nak_message cd req server_ip)"

section \<open>service.rs\<close>

text \<open>What one call of the handler sees besides the store and the datagram.\<close>

record dhcp_env =
  d_fails :: failures
  d_now :: time
  d_new_id :: string
  d_codec :: codec
  d_bind :: ipv4
  d_log_events :: bool
  d_part :: "pool_partition option"

definition with_partition :: "u32 \<Rightarrow> u32 \<Rightarrow> pool_partition option" where
  "with_partition i c = (if 1 < c then Some \<lparr>part_index = i, part_count = c\<rparr> else None)"

definition seconds :: "u32 \<Rightarrow> time" where
  "seconds n = int (unat n) * 1000000000"

definition cidr_contains_v4 :: "string \<Rightarrow> ipv4 \<Rightarrow> bool" where
  "cidr_contains_v4 cidr ip =
     (case split_once CHR ''/'' cidr of
        None \<Rightarrow> False
      | Some (net, pfx) \<Rightarrow>
          (case (parse_ipv4 (trim net), parse_uint (2 ^ 32 - 1) (trim pfx)) of
             (Some n, Some p) \<Rightarrow> if 32 < p then False else same_network p n ip
           | _ \<Rightarrow> False))"

definition log_event_at :: "dhcp_env \<Rightarrow> log_level \<Rightarrow> string \<Rightarrow> dhcp_store \<Rightarrow> dhcp_store" where
  "log_event_at env lvl text st =
     (if \<not> d_log_events env \<or> d_fails env Q_log then st
      else st\<lparr>logs := logs st @ [\<lparr>log_level_of = lvl, log_message = text, log_at = d_now env\<rparr>]\<rparr>)"

definition log_event :: "dhcp_env \<Rightarrow> string \<Rightarrow> dhcp_store \<Rightarrow> dhcp_store" where
  "log_event env text st = log_event_at env Info text st"

definition pool_exhausted :: "dhcp_env \<Rightarrow> string \<Rightarrow> string \<Rightarrow> dhcp_store \<Rightarrow> dhcp_store" where
  "pool_exhausted env pool mac st =
     log_event_at env Warn (''DHCP pool '' @ [CHR 0x27] @ pool @ [CHR 0x27] @ '' exhausted; no address for '' @ mac) st"

definition new_lease ::
  "dhcp_env \<Rightarrow> string \<Rightarrow> ipv4 \<Rightarrow> string \<Rightarrow> string option \<Rightarrow> lease_state \<Rightarrow> u32 \<Rightarrow> lease" where
  "new_lease env pool_ref ip mac hn s secs =
     \<lparr>lease_id = [], lease_created_at = d_now env, lease_updated_at = d_now env,
      lease_created_by = ''dhcp'', lease_pool_ref = pool_ref, lease_ip_address = show_ipv4 ip,
      lease_mac_address = Some mac, lease_client_id = None, lease_hostname = hn, lease_st = s,
      lease_start = d_now env, lease_expiry = d_now env + seconds secs, last_renewal = None,
      protocol_version = ProtoV4\<rparr>"

definition persist_lease ::
  "dhcp_env \<Rightarrow> dhcp_store \<Rightarrow> string \<Rightarrow> ipv4 \<Rightarrow> string \<Rightarrow> string option \<Rightarrow> lease_state \<Rightarrow> u32
   \<Rightarrow> dhcp_store \<times> bool" where
  "persist_lease env st pool_ref ip mac hn s secs =
     (case upsert_lease (d_fails env) (d_new_id env) st (new_lease env pool_ref ip mac hn s secs) of
        (st1, r) \<Rightarrow> (st1, is_ok r))"

type_synonym reply = "(u8 list \<times> socket_addr) option"

definition select_pool :: "pool list \<Rightarrow> ipv4 \<Rightarrow> pool option" where
  "select_pool ps selector =
     (case List.find (\<lambda>p. case subnet_v4 p of Some c \<Rightarrow> cidr_contains_v4 c selector | None \<Rightarrow> False) ps of
        Some p \<Rightarrow> Some p
      | None \<Rightarrow> (case ps of [] \<Rightarrow> None | p # _ \<Rightarrow> Some p))"

definition usable_v4 :: "pool \<Rightarrow> bool" where
  "usable_v4 p \<longleftrightarrow> pool_enabled p \<and> range_start_v4 p \<noteq> None \<and> range_end_v4 p \<noteq> None"

text \<open>What the handler has read when it dispatches on the message type.\<close>

record dhcp_ctx =
  c_pool :: pool
  c_reservations :: "reservation list"
  c_leases :: "lease list"
  c_config :: dhcp_config
  c_secs :: u32
  c_server_ip :: ipv4

definition read_context :: "dhcp_env \<Rightarrow> dhcp_store \<Rightarrow> message \<Rightarrow> dhcp_store \<times> dhcp_ctx option" where
  "read_context env st m =
     (case list_pools (d_fails env) st of
        Inl _ \<Rightarrow> (st, None)
      | Inr ps \<Rightarrow>
          (let selector = (if m_giaddr m \<noteq> ipv4_unspecified then m_giaddr m else d_bind env)
           in case select_pool (filter usable_v4 ps) selector of
                None \<Rightarrow> (st, None)
              | Some p \<Rightarrow>
                  (case list_reservations (d_fails env) st (pool_id p) of
                     Inl _ \<Rightarrow> (st, None)
                   | Inr rs \<Rightarrow>
                       (case list_leases (d_fails env) st (Some (pool_id p)) of
                          Inl _ \<Rightarrow> (st, None)
                        | Inr ls \<Rightarrow>
                            (case get_dhcp_config (d_fails env) st of
                               (st1, Inl _) \<Rightarrow> (st1, None)
                             | (st1, Inr cfg) \<Rightarrow>
                                 (st1, Some \<lparr>c_pool = p, c_reservations = rs, c_leases = ls,
                                   c_config = cfg,
                                   c_secs = max (case lease_duration_secs p of Some s \<Rightarrow> s
                                                 | None \<Rightarrow> default_lease_secs cfg) 1,
                                   c_server_ip = (case Option.bind (gateway p) parse_ipv4 of
                                                    Some g \<Rightarrow> g | None \<Rightarrow> d_bind env)\<rparr>))))))"

definition on_discover ::
  "dhcp_env \<Rightarrow> dhcp_store \<Rightarrow> message \<Rightarrow> string \<Rightarrow> dhcp_ctx \<Rightarrow> dhcp_store \<times> reply" where
  "on_discover env st m mac c =
     (case allocate_ip (c_pool c) (c_reservations c) (c_leases c) mac (requested_ip m) (d_part env) of
        None \<Rightarrow> (pool_exhausted env (pool_name (c_pool c)) mac st, None)
      | Some ip \<Rightarrow>
          (case persist_lease env st (pool_id (c_pool c)) ip mac (hostname m) Offered (c_secs c) of
             (st1, False) \<Rightarrow> (st1, None)
           | (st1, True) \<Rightarrow>
               (case build_reply (d_codec env) m Offer ip (c_pool c) (c_config c) (c_server_ip c)
                       (c_secs c) of
                  None \<Rightarrow> (st1, None)
                | Some r \<Rightarrow>
                    (log_event env (''DHCPOFFER '' @ show_ipv4 ip @ '' -> '' @ mac) st1,
                     Some (r, reply_destination m)))))"

text \<open>The address a REQUEST insists on: option 50, else the client's own address.\<close>

definition wanted_ip :: "message \<Rightarrow> ipv4 option" where
  "wanted_ip m = or_else (requested_ip m)
     (if m_ciaddr m \<noteq> ipv4_unspecified then Some (m_ciaddr m) else None)"

definition on_request ::
  "dhcp_env \<Rightarrow> dhcp_store \<Rightarrow> message \<Rightarrow> string \<Rightarrow> dhcp_ctx \<Rightarrow> dhcp_store \<times> reply" where
  "on_request env st m mac c =
     (let requested = wanted_ip m
      in case allocate_ip (c_pool c) (c_reservations c) (c_leases c) mac requested (d_part env) of
           None \<Rightarrow> (pool_exhausted env (pool_name (c_pool c)) mac st, None)
         | Some ip \<Rightarrow>
             if requested \<noteq> None \<and> requested \<noteq> Some ip
             then (case build_nak (d_codec env) m (c_server_ip c) of
                     None \<Rightarrow> (st, None)
                   | Some nak \<Rightarrow>
                       (log_event env (''DHCPNAK '' @ show_ipv4 (the requested) @ '' -> '' @ mac) st,
                        Some (nak, broadcast_addr)))
             else
               (case persist_lease env st (pool_id (c_pool c)) ip mac (hostname m) Active (c_secs c) of
                  (st1, False) \<Rightarrow> (st1, None)
                | (st1, True) \<Rightarrow>
                    (case build_reply (d_codec env) m Ack ip (c_pool c) (c_config c) (c_server_ip c)
                            (c_secs c) of
                       None \<Rightarrow> (st1, None)
                     | Some r \<Rightarrow>
                         (log_event env (''DHCPACK '' @ show_ipv4 ip @ '' -> '' @ mac @ '' ('' @
                            show_nat (unat (c_secs c)) @ ''s)'') st1,
                          Some (r, reply_destination m)))))"

definition on_release :: "dhcp_env \<Rightarrow> dhcp_store \<Rightarrow> message \<Rightarrow> string \<Rightarrow> dhcp_ctx \<Rightarrow> dhcp_store \<times> reply"
  where
  "on_release env st m mac c =
     (case List.find (\<lambda>l. is_releasable (lease_st l) \<and>
                          parse_ipv4 (lease_ip_address l) = Some (m_ciaddr m)) (c_leases c) of
        None \<Rightarrow> (st, None)
      | Some l \<Rightarrow>
          (log_event env (''DHCPRELEASE '' @ show_ipv4 (m_ciaddr m) @ '' -> '' @ mac)
             (fst (release_lease (d_fails env) (d_now env) st (lease_id l))), None))"

definition handle_message :: "dhcp_env \<Rightarrow> dhcp_store \<Rightarrow> u8 list \<Rightarrow> dhcp_store \<times> reply" where
  "handle_message env st bytes =
     (case decode (d_codec env) bytes of
        None \<Rightarrow> (st, None)
      | Some m \<Rightarrow>
          (case msg_type m of
             None \<Rightarrow> (st, None)
           | Some t \<Rightarrow>
               (case read_context env st m of
                  (st1, None) \<Rightarrow> (st1, None)
                | (st1, Some c) \<Rightarrow>
                    (case t of
                       Discover \<Rightarrow> on_discover env st1 m (client_mac m) c
                     | Request \<Rightarrow> on_request env st1 m (client_mac m) c
                     | Release \<Rightarrow> on_release env st1 m (client_mac m) c
                     | _ \<Rightarrow> (st1, None)))))"

section \<open>The allocator's contract\<close>

text \<open>What the server relies on: a static reservation is honoured, and any other address handed out
  lies in the pool, is nobody's reservation and is held by nobody else.\<close>

definition free_for :: "dhcp_ctx \<Rightarrow> string \<Rightarrow> ipv4 \<Rightarrow> bool" where
  "free_for c mac ip \<longleftrightarrow>
     reservation_ip (c_reservations c) mac = Some ip \<or>
     (ip_in_pool_v4 (c_pool c) (show_ipv4 ip) \<and>
      (\<forall>r \<in> set (c_reservations c). res_ip_address r \<noteq> show_ipv4 ip) \<and>
      (\<forall>l \<in> set (c_leases c). holds_address l \<and> lease_ip_address l = show_ipv4 ip \<longrightarrow> lease_of_mac mac l))"

locale address_allocator =
  fixes alloc :: "pool \<Rightarrow> reservation list \<Rightarrow> lease list \<Rightarrow> string \<Rightarrow> ipv4 option
    \<Rightarrow> pool_partition option \<Rightarrow> ipv4 option"
  assumes alloc_static: "reservation_ip rs mac = Some ip \<Longrightarrow> alloc p rs ls mac req part = Some ip"
    and alloc_in_pool: "\<lbrakk>reservation_ip rs mac = None; alloc p rs ls mac req part = Some ip\<rbrakk>
      \<Longrightarrow> ip_in_pool_v4 p (show_ipv4 ip) \<and> (\<forall>r \<in> set rs. res_ip_address r \<noteq> show_ipv4 ip)"
    and alloc_not_held: "\<lbrakk>unique_holders ls; reservation_ip rs mac = None;
      alloc p rs ls mac req part = Some ip; l \<in> set ls; holds_address l;
      lease_ip_address l = show_ipv4 ip\<rbrakk> \<Longrightarrow> lease_of_mac mac l"
    and alloc_sticky: "\<lbrakk>reservation_ip rs mac = None; current_lease_ip ls mac = Some ip;
      ip_in_pool_v4 p (show_ipv4 ip); \<forall>r \<in> set rs. res_ip_address r \<noteq> show_ipv4 ip\<rbrakk>
      \<Longrightarrow> alloc p rs ls mac req part = Some ip"
begin

lemma alloc_free_for:
  assumes "unique_holders (c_leases c)"
    and "alloc (c_pool c) (c_reservations c) (c_leases c) mac req part = Some ip"
  shows "free_for c mac ip"
proof (cases "reservation_ip (c_reservations c) mac")
  case None
  then show ?thesis
    using alloc_in_pool [OF None assms(2)] alloc_not_held [OF assms(1) None assms(2)]
    by (simp add: free_for_def)
next
  case (Some ip')
  then show ?thesis using alloc_static assms(2) by (simp add: free_for_def)
qed

text \<open>Once a client holds what it was given, it is given the same again.\<close>

lemma alloc_again:
  assumes "alloc p rs ls mac req part = Some ip" and "current_lease_ip ls' mac = Some ip"
  shows "alloc p rs ls' mac req' part' = Some ip"
proof (cases "reservation_ip rs mac")
  case None
  then show ?thesis using alloc_in_pool [OF None assms(1)] alloc_sticky [OF None assms(2)] by blast
next
  case (Some ip')
  then show ?thesis using alloc_static assms(1) by simp
qed

end

lemma ip_in_pool_v4_iff:
  "ip_in_pool_v4 p (show_ipv4 ip) \<longleftrightarrow> (\<exists>s e. v4_range p = Some (s, e) \<and> in_range ip s e)"
  by (auto simp: ip_in_pool_v4_def in_range_def split: option.splits)

interpretation alloc: address_allocator allocate_ip
proof
  fix rs mac ip p ls req part l
  show "allocate_ip p rs ls mac req part = Some ip" if "reservation_ip rs mac = Some ip"
    using that by (rule allocate_ip_reserved)
  show "ip_in_pool_v4 p (show_ipv4 ip) \<and> (\<forall>r \<in> set rs. res_ip_address r \<noteq> show_ipv4 ip)"
    if "reservation_ip rs mac = None" "allocate_ip p rs ls mac req part = Some ip"
    using that(2,1) by (rule allocate_ip_dynamic) (auto simp: ip_in_pool_v4_iff reserved_ips_iff)
  show "lease_of_mac mac l"
    if "unique_holders ls" "reservation_ip rs mac = None" "allocate_ip p rs ls mac req part = Some ip"
      "l \<in> set ls" "holds_address l" "lease_ip_address l = show_ipv4 ip"
    using allocate_ip_safe(3) [OF that(1-3)] that(4-6) by blast
  show "allocate_ip p rs ls mac req part = Some ip"
    if "reservation_ip rs mac = None" "current_lease_ip ls mac = Some ip"
      "ip_in_pool_v4 p (show_ipv4 ip)" "\<forall>r \<in> set rs. res_ip_address r \<noteq> show_ipv4 ip"
    using that by (auto simp: ip_in_pool_v4_iff reserved_ips_iff intro!: allocate_ip_sticky)
qed

section \<open>Lemmas\<close>

lemma log_event_keeps [simp]:
  "leases (log_event_at env lvl t st) = leases st" "pools (log_event_at env lvl t st) = pools st"
  "reservations (log_event_at env lvl t st) = reservations st"
  "leases (log_event env t st) = leases st" "pools (log_event env t st) = pools st"
  "reservations (log_event env t st) = reservations st"
  "leases (pool_exhausted env n mac st) = leases st" "pools (pool_exhausted env n mac st) = pools st"
  "reservations (pool_exhausted env n mac st) = reservations st"
  by (simp_all add: log_event_at_def log_event_def pool_exhausted_def)

lemma config_keeps [simp]:
  "leases (fst (get_dhcp_config f st)) = leases st"
  "pools (fst (get_dhcp_config f st)) = pools st"
  "reservations (fst (get_dhcp_config f st)) = reservations st"
  by (simp_all add: get_dhcp_config_def split: list.split)

lemma read_context_keeps:
  assumes "read_context env st m = (st1, c)"
  shows "leases st1 = leases st" and "pools st1 = pools st" and "reservations st1 = reservations st"
proof -
  have "st1 = st \<or> st1 = fst (get_dhcp_config (d_fails env) st)"
    using assms by (auto simp: read_context_def Let_def split: sum.splits option.splits prod.splits)
  then show "leases st1 = leases st" and "pools st1 = pools st" and "reservations st1 = reservations st"
    by auto
qed

lemma read_context_Some:
  assumes "read_context env st m = (st1, Some c)"
  shows "list_leases (d_fails env) st (Some (pool_id (c_pool c))) = Inr (c_leases c)"
    and "list_reservations (d_fails env) st (pool_id (c_pool c)) = Inr (c_reservations c)"
    and "1 \<le> c_secs c"
  using assms
  by (auto simp: read_context_def Let_def split: sum.splits option.splits prod.splits)

lemma persist_lease_True:
  assumes "persist_lease env st p ip mac hn s secs = (st1, True)"
  shows "leases st1 = filter (\<lambda>k. \<not> same_key (new_lease env p ip mac hn s secs) k) (leases st)
           @ [(new_lease env p ip mac hn s secs)\<lparr>lease_id := d_new_id env\<rparr>]"
  using assms
  by (auto simp: persist_lease_def upsert_lease_def Let_def split: prod.splits if_splits)

lemma persist_lease_keys:
  "lease_keys_unique st \<Longrightarrow> persist_lease env st p ip mac hn s secs = (st1, b) \<Longrightarrow> lease_keys_unique st1"
  using upsert_lease_keys [of st "d_fails env" "d_new_id env" "new_lease env p ip mac hn s secs"]
  by (simp add: persist_lease_def split: prod.splits)

lemma on_discover_reply:
  assumes "on_discover env st m mac c = (st', Some (b, dst))"
  obtains ip st1 where
    "allocate_ip (c_pool c) (c_reservations c) (c_leases c) mac (requested_ip m) (d_part env) = Some ip"
    "persist_lease env st (pool_id (c_pool c)) ip mac (hostname m) Offered (c_secs c) = (st1, True)"
    "leases st' = leases st1" "dst = reply_destination m"
    "build_reply (d_codec env) m Offer ip (c_pool c) (c_config c) (c_server_ip c) (c_secs c) = Some b"
proof -
  from assms obtain ip where a: "allocate_ip (c_pool c) (c_reservations c) (c_leases c) mac
      (requested_ip m) (d_part env) = Some ip"
    by (simp add: on_discover_def split: option.splits)
  obtain st1 ok where p: "persist_lease env st (pool_id (c_pool c)) ip mac (hostname m) Offered
      (c_secs c) = (st1, ok)" by fastforce
  with assms a have ok: "ok = True" by (cases ok) (simp_all add: on_discover_def)
  with assms a p show thesis
    by (intro that [of ip st1]) (auto simp: on_discover_def split: option.splits)
qed

lemma on_request_reply:
  assumes "on_request env st m mac c = (st', Some (b, dst))"
  obtains (nak) ip req where
      "allocate_ip (c_pool c) (c_reservations c) (c_leases c) mac (wanted_ip m) (d_part env) = Some ip"
      "wanted_ip m = Some req" "req \<noteq> ip" "leases st' = leases st" "dst = broadcast_addr"
      "build_nak (d_codec env) m (c_server_ip c) = Some b"
    | (ack) ip st1 where
      "allocate_ip (c_pool c) (c_reservations c) (c_leases c) mac (wanted_ip m) (d_part env) = Some ip"
      "wanted_ip m = None \<or> wanted_ip m = Some ip"
      "persist_lease env st (pool_id (c_pool c)) ip mac (hostname m) Active (c_secs c) = (st1, True)"
      "leases st' = leases st1" "dst = reply_destination m"
      "build_reply (d_codec env) m Ack ip (c_pool c) (c_config c) (c_server_ip c) (c_secs c) = Some b"
proof -
  let ?w = "wanted_ip m"
  note r = assms [unfolded on_request_def Let_def]
  from r obtain ip where a: "allocate_ip (c_pool c) (c_reservations c) (c_leases c) mac ?w
      (d_part env) = Some ip"
    by (simp split: option.splits)
  show thesis
  proof (cases "?w \<noteq> None \<and> ?w \<noteq> Some ip")
    case True
    then obtain req where "?w = Some req" "req \<noteq> ip" by auto
    with r a True show thesis by (intro nak [of ip req]) (auto split: option.splits)
  next
    case False
    obtain st1 ok where p: "persist_lease env st (pool_id (c_pool c)) ip mac (hostname m) Active
        (c_secs c) = (st1, ok)" by fastforce
    with r a False have ok: "ok = True" by (cases ok) auto
    with r a p False show thesis
      by (intro ack [of ip st1]) (auto split: option.splits)
  qed
qed

text \<open>The row a grant leaves in the store.\<close>

definition grants ::
  "dhcp_env \<Rightarrow> dhcp_ctx \<Rightarrow> string \<Rightarrow> ipv4 \<Rightarrow> lease_state \<Rightarrow> dhcp_store \<Rightarrow> bool" where
  "grants env c mac ip s st' \<longleftrightarrow>
     (\<exists>row \<in> set (leases st'). lease_pool_ref row = pool_id (c_pool c) \<and>
        lease_ip_address row = show_ipv4 ip \<and> lease_mac_address row = Some mac \<and> lease_st row = s \<and>
        lease_expiry row = d_now env + seconds (c_secs c) \<and>
        (\<forall>k \<in> set (leases st'). same_key row k \<longrightarrow> k = row))"

lemma persist_lease_grants:
  assumes "persist_lease env st (pool_id (c_pool c)) ip mac hn s (c_secs c) = (st1, True)"
    and "leases st' = leases st1"
  shows "grants env c mac ip s st'"
proof -
  let ?n = "new_lease env (pool_id (c_pool c)) ip mac hn s (c_secs c)"
  let ?row = "?n\<lparr>lease_id := d_new_id env\<rparr>"
  have "leases st' = filter (\<lambda>k. \<not> same_key ?n k) (leases st) @ [?row]"
    using persist_lease_True [OF assms(1)] assms(2) by simp
  moreover have "same_key ?row = same_key ?n" by (simp add: fun_eq_iff same_key_def)
  ultimately show ?thesis
    unfolding grants_def by (intro bexI [of _ ?row]) (auto simp: new_lease_def)
qed

lemma context_unique_holders:
  "lease_keys_unique st \<Longrightarrow> read_context env st m = (st1, Some c) \<Longrightarrow> unique_holders (c_leases c)"
  using read_context_Some(1) list_leases_unique_holders by blast

lemma handle_dispatch:
  assumes "decode (d_codec env) bytes = Some m" and "msg_type m = Some t"
    and "handle_message env st bytes = (st', Some r)"
  obtains st1 c where "read_context env st m = (st1, Some c)"
    "(case t of Discover \<Rightarrow> on_discover env st1 m (client_mac m) c
      | Request \<Rightarrow> on_request env st1 m (client_mac m) c
      | Release \<Rightarrow> on_release env st1 m (client_mac m) c
      | _ \<Rightarrow> (st1, None)) = (st', Some r)"
proof -
  obtain st1 co where c: "read_context env st m = (st1, co)" by fastforce
  show thesis
  proof (cases co)
    case None
    with assms c show thesis by (simp add: handle_message_def)
  next
    case (Some x)
    with assms c show thesis by (intro that [of st1 x]) (simp_all add: handle_message_def)
  qed
qed

lemma lease_keys_cong: "leases st = leases st' \<Longrightarrow> lease_keys_unique st = lease_keys_unique st'"
  by (simp add: lease_keys_unique_def)

text \<open>What a handler leaves in the lease table: unchanged, or what storing the lease left.\<close>

lemma on_discover_leases:
  "leases (fst (on_discover env st m mac c)) = leases st \<or>
   (\<exists>ip. allocate_ip (c_pool c) (c_reservations c) (c_leases c) mac (requested_ip m) (d_part env) = Some ip \<and>
      leases (fst (on_discover env st m mac c)) = leases (fst (persist_lease env st
        (pool_id (c_pool c)) ip mac (hostname m) Offered (c_secs c))))"
proof (cases "allocate_ip (c_pool c) (c_reservations c) (c_leases c) mac (requested_ip m) (d_part env)")
  case None
  then show ?thesis by (simp add: on_discover_def)
next
  case (Some ip)
  obtain st1 ok where p: "persist_lease env st (pool_id (c_pool c)) ip mac (hostname m) Offered
      (c_secs c) = (st1, ok)" by fastforce
  with Some have "leases (fst (on_discover env st m mac c)) = leases st1"
    by (cases ok) (auto simp: on_discover_def split: option.splits)
  with Some p show ?thesis by simp
qed

lemma on_request_leases:
  "leases (fst (on_request env st m mac c)) = leases st \<or>
   (\<exists>ip. allocate_ip (c_pool c) (c_reservations c) (c_leases c) mac (wanted_ip m) (d_part env) = Some ip \<and>
      leases (fst (on_request env st m mac c)) = leases (fst (persist_lease env st
        (pool_id (c_pool c)) ip mac (hostname m) Active (c_secs c))))"
proof (cases "allocate_ip (c_pool c) (c_reservations c) (c_leases c) mac (wanted_ip m) (d_part env)")
  case None
  then show ?thesis by (simp add: on_request_def)
next
  case (Some ip)
  obtain st1 ok where p: "persist_lease env st (pool_id (c_pool c)) ip mac (hostname m) Active
      (c_secs c) = (st1, ok)" by fastforce
  show ?thesis
  proof (cases "wanted_ip m \<noteq> None \<and> wanted_ip m \<noteq> Some ip")
    case True
    then have "leases (fst (on_request env st m mac c)) = leases st"
      using Some unfolding on_request_def Let_def
      by (simp split: option.splits)
    then show ?thesis ..
  next
    case False
    then have "leases (fst (on_request env st m mac c)) = leases st1"
      using Some p unfolding on_request_def Let_def
      by (cases ok) (auto split: option.splits)
    with Some p show ?thesis by simp
  qed
qed

lemma on_release_leases:
  "leases (fst (on_release env st m mac c)) = leases st \<or>
   (\<exists>l \<in> set (c_leases c). lease_ip_address l = show_ipv4 (m_ciaddr m) \<and>
      leases (fst (on_release env st m mac c)) =
        leases (fst (release_lease (d_fails env) (d_now env) st (lease_id l))))"
  by (auto simp: on_release_def parse_ipv4_Some_iff split: option.splits dest!: find_SomeD)

text \<open>The three ways a datagram can change the lease table.\<close>

lemma handle_message_leases:
  obtains (same) "leases (fst (handle_message env st bytes)) = leases st"
    | (grant) st1 m c ip req s where "decode (d_codec env) bytes = Some m"
        "msg_type m = Some Discover \<or> msg_type m = Some Request"
        "read_context env st m = (st1, Some c)"
        "allocate_ip (c_pool c) (c_reservations c) (c_leases c) (client_mac m) req (d_part env) = Some ip"
        "leases (fst (handle_message env st bytes)) = leases (fst (persist_lease env st1
           (pool_id (c_pool c)) ip (client_mac m) (hostname m) s (c_secs c)))"
    | (release) st1 m c l where "decode (d_codec env) bytes = Some m" "msg_type m = Some Release"
        "read_context env st m = (st1, Some c)" "l \<in> set (c_leases c)"
        "lease_ip_address l = show_ipv4 (m_ciaddr m)"
        "leases (fst (handle_message env st bytes)) =
           leases (fst (release_lease (d_fails env) (d_now env) st1 (lease_id l)))"
proof (cases "\<exists>m t st1 c. decode (d_codec env) bytes = Some m \<and> msg_type m = Some t \<and>
    read_context env st m = (st1, Some c)")
  case False
  then have "leases (fst (handle_message env st bytes)) = leases st"
    using read_context_keeps(1) [of env st]
    by (auto simp: handle_message_def split: option.splits prod.splits)
  then show thesis by (rule same)
next
  case True
  then obtain m t st1 c where d: "decode (d_codec env) bytes = Some m" "msg_type m = Some t"
    and c: "read_context env st m = (st1, Some c)" by blast
  note keep = read_context_keeps(1) [OF c]
  show thesis
  proof (cases t)
    case Discover
    with d c keep on_discover_leases [of env st1 m "client_mac m" c] show thesis
      using same grant [of m st1 c _ _ Offered] by (auto simp: handle_message_def)
  next
    case Request
    with d c keep on_request_leases [of env st1 m "client_mac m" c] show thesis
      using same grant [of m st1 c _ _ Active] by (auto simp: handle_message_def)
  next
    case Release
    with d c keep on_release_leases [of env st1 m "client_mac m" c] show thesis
      using same release [of m st1 c] by (auto simp: handle_message_def)
  qed (use d c keep same in \<open>auto simp: handle_message_def\<close>)
qed

lemma lease_keys_handle:
  assumes "lease_keys_unique st"
  shows "lease_keys_unique (fst (handle_message env st bytes))"
proof (cases rule: handle_message_leases [of env st bytes])
  case same
  with assms show ?thesis by (simp add: lease_keys_unique_def)
next
  case (grant st1 m c ip req s)
  then have "lease_keys_unique st1"
    using assms lease_keys_cong [OF read_context_keeps(1)] by blast
  then have "lease_keys_unique (fst (persist_lease env st1 (pool_id (c_pool c)) ip (client_mac m)
      (hostname m) s (c_secs c)))"
    using persist_lease_keys by (metis prod.collapse)
  with grant(5) show ?thesis using lease_keys_cong by blast
next
  case (release st1 m c l)
  then have "lease_keys_unique st1"
    using assms lease_keys_cong [OF read_context_keeps(1)] by blast
  with lease_keys_release release(6) show ?thesis using lease_keys_cong by blast
qed

section \<open>A server to evaluate\<close>

definition demo_msg :: "message_type \<Rightarrow> u8 list \<Rightarrow> ipv4 option \<Rightarrow> message" where
  "demo_msg t mac req = \<lparr>m_opcode = BootRequest, m_xid = 0x1234, m_broadcast = False, m_flags = 0,
     m_ciaddr = 0, m_yiaddr = 0, m_siaddr = 0, m_giaddr = 0, m_chaddr = mac,
     m_opts = (\<lambda>c. case c of CMessageType \<Rightarrow> Some (OptMessageType t)
                  | CRequestedIpAddress \<Rightarrow> map_option RequestedIpAddress req
                  | _ \<Rightarrow> None)\<rparr>"

text \<open>A codec of two datagrams, a DISCOVER and a REQUEST that both name 192.0.2.10.\<close>

abbreviation "demo_chaddr \<equiv> [0xaa, 0xbb, 0xcc, 0, 0, 9]"

definition demo_codec :: codec where
  "demo_codec = \<lparr>
     from_bytes = (\<lambda>b. if b = [1] then Some (demo_msg Discover demo_chaddr (Some 0xC000020A))
                       else if b = [2] then Some (demo_msg Request demo_chaddr (Some 0xC000020A))
                       else None),
     to_vec = (\<lambda>m. Some [ucast (m_yiaddr m)]),
     default_message = demo_msg Inform [] None\<rparr>"

definition demo_denv :: dhcp_env where
  "demo_denv = \<lparr>d_fails = (\<lambda>_. False), d_now = 100, d_new_id = ''l1'', d_codec = demo_codec,
     d_bind = 0, d_log_events = True, d_part = None\<rparr>"

definition demo_lan :: dhcp_store where
  "demo_lan = empty_dhcp_store\<lparr>pools := [(demo_pool ''lan'' ''192.0.2.10'' ''192.0.2.12'')
     \<lparr>pool_id := ''p1'', subnet_v4 := None\<rparr>], configs := [default_dhcp_config]\<rparr>"

lemma demo_lan_range:
  "v4_range ((demo_pool ''lan'' ''192.0.2.10'' ''192.0.2.12'')\<lparr>pool_id := ''p1'', subnet_v4 := None\<rparr>)
     = Some (0xC000020A, 0xC000020C)"
  by (simp add: v4_range_def demo_pool_def demo_parse)

definition demo_ctx :: dhcp_ctx where
  "demo_ctx = \<lparr>c_pool = (demo_pool ''lan'' ''192.0.2.10'' ''192.0.2.12'')\<lparr>pool_id := ''p1'', subnet_v4 := None\<rparr>,
     c_reservations = [], c_leases = [], c_config = default_dhcp_config, c_secs = 3600,
     c_server_ip = 0xC0000201\<rparr>"

lemma demo_context: "read_context demo_denv demo_lan m = (demo_lan, Some demo_ctx)"
  by (simp add: read_context_def demo_denv_def demo_lan_def list_pools_def usable_v4_def demo_pool_def
      select_pool_def list_reservations_def list_leases_def get_dhcp_config_def empty_dhcp_store_def
      demo_ctx_def parse_ipv4_eval)

lemma demo_alloc: "allocate_ip (c_pool demo_ctx) [] [] mac (Some 0xC000020A) None = Some 0xC000020A"
  by (simp add: allocate_ip_def demo_ctx_def demo_lan_range reservation_ip_def current_lease_ip_def
      reserved_ips_def held_by_other_def map_filter_simps in_range_def)

lemma demo_msg_simps [simp]:
  "m_opcode (demo_msg t mac req) = BootRequest"
  "msg_type (demo_msg t mac req) = Some t"
  "requested_ip (demo_msg t mac req) = req"
  "wanted_ip (demo_msg t mac req) = req"
  by (simp_all add: msg_type_def requested_ip_def wanted_ip_def or_else_def demo_msg_def
      ipv4_unspecified_def split: option.splits)

lemma demo_decode:
  "decode demo_codec [1] = Some (demo_msg Discover demo_chaddr (Some 0xC000020A))"
  "decode demo_codec [2] = Some (demo_msg Request demo_chaddr (Some 0xC000020A))"
  by (simp_all add: decode_def demo_codec_def)

lemma demo_denv_simps [simp]:
  "d_codec demo_denv = demo_codec" "d_part demo_denv = None" "d_fails demo_denv = (\<lambda>_. False)"
  "c_reservations demo_ctx = []" "c_leases demo_ctx = []"
  by (simp_all add: demo_denv_def demo_ctx_def)

lemma demo_persist: "\<exists>st1. persist_lease demo_denv st a b e f g h = (st1, True)"
  by (simp add: persist_lease_def upsert_lease_def Let_def)

lemma demo_to_vec: "to_vec demo_codec m = Some [ucast (m_yiaddr m)]"
  by (simp add: demo_codec_def)

lemma demo_discover_reply: "\<exists>st' b dst. handle_message demo_denv demo_lan [1] = (st', Some (b, dst))"
proof -
  let ?m = "demo_msg Discover demo_chaddr (Some 0xC000020A)"
  obtain st1 where "persist_lease demo_denv demo_lan (pool_id (c_pool demo_ctx)) 0xC000020A
      (client_mac ?m) (hostname ?m) Offered (c_secs demo_ctx) = (st1, True)"
    using demo_persist by blast
  then show ?thesis
    by (simp add: handle_message_def demo_decode demo_context on_discover_def demo_alloc
        build_reply_def demo_to_vec)
qed

lemma demo_request_reply: "\<exists>st' b dst. handle_message demo_denv demo_lan [2] = (st', Some (b, dst))"
proof -
  let ?m = "demo_msg Request demo_chaddr (Some 0xC000020A)"
  obtain st1 where "persist_lease demo_denv demo_lan (pool_id (c_pool demo_ctx)) 0xC000020A
      (client_mac ?m) (hostname ?m) Active (c_secs demo_ctx) = (st1, True)"
    using demo_persist by blast
  then show ?thesis
    by (simp add: handle_message_def demo_decode demo_context on_request_def demo_alloc Let_def
        build_reply_def demo_to_vec)
qed

lemma demo_lan_keys: "lease_keys_unique demo_lan"
  by (simp add: lease_keys_unique_def demo_lan_def empty_dhcp_store_def)

section \<open>Properties\<close>

text \<open>\<^bold>\<open>C1.\<close> An OFFER is safe. When the server answers a DISCOVER, the address in the reply is
  either the client's own reservation, or an address of the selected pool that is nobody's
  reservation and that no lease of the pool is holding for another client; and the store then
  holds exactly one lease of that address, offered to that client, which expires after the lease
  time.\<close>

theorem discover_offers_free_address:
  assumes "lease_keys_unique st" and "decode (d_codec env) bytes = Some m"
    and "msg_type m = Some Discover" and "handle_message env st bytes = (st', Some (b, dst))"
  shows "\<exists>st1 c ip. read_context env st m = (st1, Some c) \<and> free_for c (client_mac m) ip \<and>
    to_vec (d_codec env) (reply_message (d_codec env) m Offer ip (c_pool c) (c_config c)
      (c_server_ip c) (c_secs c)) = Some b \<and>
    dst = reply_destination m \<and> grants env c (client_mac m) ip Offered st'"
proof -
  obtain st1 c where c: "read_context env st m = (st1, Some c)"
    and d: "on_discover env st1 m (client_mac m) c = (st', Some (b, dst))"
    using assms(2-4) by (rule handle_dispatch) simp
  from d show ?thesis
  proof (rule on_discover_reply)
    fix ip st2
    assume a: "allocate_ip (c_pool c) (c_reservations c) (c_leases c) (client_mac m)
        (requested_ip m) (d_part env) = Some ip"
      and p: "persist_lease env st1 (pool_id (c_pool c)) ip (client_mac m) (hostname m) Offered
        (c_secs c) = (st2, True)" "leases st' = leases st2"
      and r: "dst = reply_destination m" "build_reply (d_codec env) m Offer ip (c_pool c)
        (c_config c) (c_server_ip c) (c_secs c) = Some b"
    have "free_for c (client_mac m) ip"
      using alloc.alloc_free_for [OF context_unique_holders [OF assms(1) c] a] .
    with c r persist_lease_grants [OF p] show ?thesis
      by (intro exI [of _ st1] exI [of _ c] exI [of _ ip]) (simp add: build_reply_def)
  qed
qed

theorem discover_offers_free_address_witness:
  "\<exists>st' b dst. handle_message demo_denv demo_lan [1] = (st', Some (b, dst)) \<and>
     (\<exists>st1 c ip. read_context demo_denv demo_lan (demo_msg Discover demo_chaddr (Some 0xC000020A)) = (st1, Some c) \<and>
        free_for c (client_mac (demo_msg Discover demo_chaddr (Some 0xC000020A))) ip)"
proof -
  obtain st' b dst where h: "handle_message demo_denv demo_lan [1] = (st', Some (b, dst))"
    using demo_discover_reply by blast
  with discover_offers_free_address [OF demo_lan_keys _ _ h] demo_decode(1) show ?thesis by fastforce
qed

text \<open>\<^bold>\<open>C2.\<close> A REQUEST is acknowledged safely or refused. When the server answers a REQUEST, it
  either acknowledges an address that is free for the client in the sense of C1 and equal to the
  one the client asked for if it named one, and the store then holds exactly one lease of that
  address, active for that client; or it sends a NAK to the broadcast address because the client
  insists on a different address, and no lease changes.\<close>

theorem request_acks_or_naks:
  assumes "lease_keys_unique st" and "decode (d_codec env) bytes = Some m"
    and "msg_type m = Some Request" and "handle_message env st bytes = (st', Some (b, dst))"
  shows "\<exists>st1 c ip. read_context env st m = (st1, Some c) \<and> free_for c (client_mac m) ip \<and>
    (((wanted_ip m = None \<or> wanted_ip m = Some ip) \<and>
      to_vec (d_codec env) (reply_message (d_codec env) m Ack ip (c_pool c) (c_config c)
        (c_server_ip c) (c_secs c)) = Some b \<and>
      dst = reply_destination m \<and> grants env c (client_mac m) ip Active st') \<or>
     ((\<exists>req. wanted_ip m = Some req \<and> req \<noteq> ip) \<and>
      to_vec (d_codec env) (nak_message (d_codec env) m (c_server_ip c)) = Some b \<and>
      dst = broadcast_addr \<and> leases st' = leases st))"
proof -
  obtain st1 c where c: "read_context env st m = (st1, Some c)"
    and d: "on_request env st1 m (client_mac m) c = (st', Some (b, dst))"
    using assms(2-4) by (rule handle_dispatch) simp
  note free = alloc.alloc_free_for [OF context_unique_holders [OF assms(1) c]]
  from d show ?thesis
  proof (cases rule: on_request_reply)
    case (nak ip req)
    with c free [OF nak(1)] read_context_keeps(1) [OF c] show ?thesis
      by (intro exI [of _ st1] exI [of _ c] exI [of _ ip]) (simp add: build_nak_def)
  next
    case (ack ip st2)
    with c free [OF ack(1)] persist_lease_grants [OF ack(3,4)] show ?thesis
      by (intro exI [of _ st1] exI [of _ c] exI [of _ ip]) (simp add: build_reply_def)
  qed
qed

theorem request_acks_or_naks_witness:
  "\<exists>st' b dst. handle_message demo_denv demo_lan [2] = (st', Some (b, dst)) \<and>
     (\<exists>st1 c ip. read_context demo_denv demo_lan (demo_msg Request demo_chaddr (Some 0xC000020A)) = (st1, Some c) \<and>
        free_for c (client_mac (demo_msg Request demo_chaddr (Some 0xC000020A))) ip)"
proof -
  obtain st' b dst where h: "handle_message demo_denv demo_lan [2] = (st', Some (b, dst))"
    using demo_request_reply by blast
  with request_acks_or_naks [OF demo_lan_keys _ _ h] demo_decode(2) show ?thesis by fastforce
qed

end
