(* ===== verification/Dhcp_System.thy ===== *)
theory Dhcp_System
  imports Dhcp_Service
begin

text \<open>
  The DHCP server as a system: every way its store changes (datagrams, the expiry sweep, a
  replication pass, the administration) as one step relation with its invariant, and the
  properties that span several of them or several datagrams.
\<close>

section \<open>Steps\<close>

inductive dhcp_step :: "dhcp_store \<Rightarrow> dhcp_store \<Rightarrow> bool" where
  Datagram: "dhcp_step st (fst (handle_message env st bytes))"
| Sweep: "dhcp_step st (fst (expire_stale_leases fails rfc t st))"
| Pull: "dhcp_step st (fst (dhcp_pull_once fails ids t fetch st))"
| Administer: "dhcp_admin_step st st' \<Longrightarrow> dhcp_step st st'"

inductive_cases dhcp_stepE: "dhcp_step st st'"

lemma leases_unchanged [simp]:
  "leases (fst (create_pool fails t i st p)) = leases st"
  "leases (fst (update_pool fails t st p)) = leases st"
  "leases (fst (create_reservation fails t i st r)) = leases st"
  "leases (fst (delete_reservation fails st i)) = leases st"
  "leases (fst (save_dhcp_config fails st c)) = leases st"
proof -
  show "leases (fst (create_pool fails t i st p)) = leases st"
    by (simp add: create_pool_def Let_def split: try_s_split)
  show "leases (fst (update_pool fails t st p)) = leases st"
    by (simp add: update_pool_def Let_def split: try_s_split)
  show "leases (fst (create_reservation fails t i st r)) = leases st"
    by (simp add: create_reservation_def Let_def split: try_s_split)
  show "leases (fst (delete_reservation fails st i)) = leases st"
    by (simp add: delete_reservation_def)
  show "leases (fst (save_dhcp_config fails st c)) = leases st"
    by (simp add: save_dhcp_config_def get_dhcp_config_def split: list.split)
qed

lemma lease_keys_admin: "dhcp_admin_step st st' \<Longrightarrow> lease_keys_unique st \<Longrightarrow> lease_keys_unique st'"
proof (induction rule: dhcp_admin_step.induct)
  case (DeletePool st fails i)
  then show ?case by (intro lease_keys_delete_pool)
next
  case (ReleaseLease st fails t i)
  then show ?case by (intro lease_keys_release)
qed (simp_all add: lease_keys_unique_def)

lemma lease_keys_apply_all:
  "lease_keys_unique st \<Longrightarrow> lease_keys_unique (fst (apply_all fails ids k st ls n))"
proof (induction fails ids k st ls n rule: apply_all.induct)
  case (2 fails ids k st l ls applied)
  obtain st1 r where a: "apply_replicated_lease fails (ids k) st l = (st1, r)" by fastforce
  then have "lease_keys_unique st1" using lease_keys_apply [OF "2.prems", of fails "ids k" l] by simp
  with 2 a show ?case by (cases r) simp_all
qed simp

lemma lease_keys_pull:
  assumes "lease_keys_unique st"
  shows "lease_keys_unique (fst (dhcp_pull_once fails ids t fetch st))"
proof -
  have "lease_keys_unique (fst (then_s (apply_all fails ids 0 st (feed_leases feed) 0)
      (\<lambda>st1 applied. then_s (set_dhcp_repl_cursor fails t st1 (feed_cursor feed))
        (\<lambda>st2 _. (st2, Inr (length (feed_leases feed), applied))))))" for feed
  proof -
    obtain st1 r where a: "apply_all fails ids 0 st (feed_leases feed) 0 = (st1, r)" by fastforce
    then have k: "lease_keys_unique st1" using lease_keys_apply_all [OF assms] by (metis fst_conv)
    obtain st2 r2 where c: "set_dhcp_repl_cursor fails t st1 (feed_cursor feed) = (st2, r2)" by fastforce
    then have "leases st2 = leases st1" using leases_set_cursor by (metis fst_conv)
    with k have "lease_keys_unique st2" by (simp add: lease_keys_unique_def)
    with k a c show ?thesis by (cases r; cases r2) simp_all
  qed
  then show ?thesis
    using assms by (auto simp: dhcp_pull_once_def split: try_s_split)
qed

lemma lease_keys_step: "dhcp_step st st' \<Longrightarrow> lease_keys_unique st \<Longrightarrow> lease_keys_unique st'"
  by (auto elim!: dhcp_stepE intro: lease_keys_handle lease_keys_expire lease_keys_pull
      lease_keys_admin)

lemma lease_keys_reachable: "dhcp_step\<^sup>*\<^sup>* empty_dhcp_store st \<Longrightarrow> lease_keys_unique st"
proof (induction rule: rtranclp_induct)
  case base
  show ?case by (simp add: lease_keys_unique_def empty_dhcp_store_def)
next
  case (step y z)
  then show ?case by (blast intro: lease_keys_step)
qed

section \<open>What one datagram can do to a lease\<close>

lemma release_keeps:
  "k \<in> set (leases st) \<Longrightarrow> lease_id k \<noteq> i \<Longrightarrow> k \<in> set (leases (fst (release_lease fails t st i)))"
  by (force simp: release_lease_def split: try_s_split)

lemma persist_keeps:
  assumes "k \<in> set (leases st)"
    and "\<not> (lease_pool_ref k = p \<and> lease_ip_address k = show_ipv4 ip)"
  shows "k \<in> set (leases (fst (persist_lease env st p ip mac hn s secs)))"
  using assms
  by (auto simp: persist_lease_def upsert_lease_def same_key_def new_lease_def Let_def
      split: prod.splits if_splits)

lemma lost_in_grant:
  assumes "lease_keys_unique st" and "k \<in> set (leases st)" and "holds_address k"
    and c: "read_context env st m = (st1, Some c)"
    and a: "allocate_ip (c_pool c) (c_reservations c) (c_leases c) mac req part = Some ip"
    and lost: "k \<notin> set (leases (fst (persist_lease env st1 (pool_id (c_pool c)) ip mac hn s secs)))"
  shows "lease_of_mac mac k \<or> reservation_ip (c_reservations c) mac = parse_ipv4 (lease_ip_address k)"
proof -
  have k: "lease_pool_ref k = pool_id (c_pool c)" "lease_ip_address k = show_ipv4 ip"
    using persist_keeps [of k st1 "pool_id (c_pool c)" ip env mac hn s secs] assms(2) lost read_context_keeps(1) [OF c] by auto
  then have "k \<in> set (c_leases c)"
    using list_leases_set [OF read_context_Some(1) [OF c]] assms(2) by simp
  with k assms(3) alloc.alloc_free_for [OF context_unique_holders [OF assms(1) c] a] show ?thesis
    by (auto simp: free_for_def)
qed



text \<open>\<^bold>\<open>C14.\<close> A datagram takes nothing from another client. When handling a datagram removes or
  changes a lease that holds its address, then either the datagram is a RELEASE naming that
  address, or it is a DISCOVER or REQUEST of a client that holds the lease itself or has that
  address as its static reservation.\<close>

theorem datagram_keeps_other_leases:
  assumes "lease_keys_unique st" and "distinct (map lease_id (leases st))"
    and "k \<in> set (leases st)" and "holds_address k"
    and "k \<notin> set (leases (fst (handle_message env st bytes)))"
  shows "\<exists>m st1 c. decode (d_codec env) bytes = Some m \<and> read_context env st m = (st1, Some c) \<and>
    ((msg_type m = Some Release \<and> lease_ip_address k = show_ipv4 (m_ciaddr m)) \<or>
     ((msg_type m = Some Discover \<or> msg_type m = Some Request) \<and>
      (lease_of_mac (client_mac m) k \<or>
       reservation_ip (c_reservations c) (client_mac m) = parse_ipv4 (lease_ip_address k))))"
proof (cases rule: handle_message_leases [of env st bytes])
  case same
  with assms(3,5) show ?thesis by simp
next
  case (grant st1 m c ip req s)
  then have "lease_of_mac (client_mac m) k \<or>
      reservation_ip (c_reservations c) (client_mac m) = parse_ipv4 (lease_ip_address k)"
    using lost_in_grant [OF assms(1,3,4) grant(3,4)] assms(5) by simp
  with grant show ?thesis by blast
next
  case (release st1 m c l)
  have "k \<in> set (leases st1)" using assms(3) read_context_keeps(1) [OF release(3)] by simp
  then have "lease_id k = lease_id l"
    using release_keeps [of k st1 "lease_id l"] assms(5) release(6) by auto
  moreover have "l \<in> set (leases st)"
    using list_leases_set [OF read_context_Some(1) [OF release(3)]] release(4) by simp
  ultimately have "k = l" using assms(2,3) by (metis distinct_map inj_onD)
  with release show ?thesis by blast
qed

definition demo_held :: lease where
  "demo_held = (demo_lease ''192.0.2.10'' 7)\<lparr>lease_mac_address := Some ''aa:bb:cc:00:00:09''\<rparr>"

definition demo_held_lan :: dhcp_store where
  "demo_held_lan = demo_lan\<lparr>leases := [demo_held]\<rparr>"

text \<open>A codec of one datagram: the RELEASE of 192.0.2.10.\<close>

definition demo_release_env :: dhcp_env where
  "demo_release_env = demo_denv\<lparr>d_codec := demo_codec\<lparr>from_bytes :=
     (\<lambda>_. Some ((demo_msg Release demo_chaddr None)\<lparr>m_ciaddr := 0xC000020A\<rparr>))\<rparr>\<rparr>"

lemma demo_release_context:
  "read_context demo_release_env demo_held_lan m =
     (demo_held_lan, Some (demo_ctx\<lparr>c_leases := [demo_held]\<rparr>))"
  by (simp add: read_context_def demo_release_env_def demo_denv_def demo_held_lan_def demo_lan_def
      list_pools_def usable_v4_def demo_pool_def select_pool_def list_reservations_def
      list_leases_def get_dhcp_config_def empty_dhcp_store_def demo_ctx_def parse_ipv4_eval
      demo_held_def demo_lease_def)

lemma demo_release_leases:
  "leases (fst (handle_message demo_release_env demo_held_lan [])) =
     [demo_held\<lparr>lease_st := Released, lease_updated_at := 100\<rparr>]"
proof -
  let ?m = "(demo_msg Release demo_chaddr None)\<lparr>m_ciaddr := 0xC000020A\<rparr>"
  have "decode (d_codec demo_release_env) [] = Some ?m"
    by (simp add: decode_def demo_release_env_def)
  moreover have "msg_type ?m = Some Release" by (simp add: msg_type_def demo_msg_def)
  moreover have "leases (fst (on_release demo_release_env demo_held_lan ?m mac
      (demo_ctx\<lparr>c_leases := [demo_held]\<rparr>))) = [demo_held\<lparr>lease_st := Released, lease_updated_at := 100\<rparr>]"
    for mac
    by (simp add: on_release_def demo_held_def demo_lease_def demo_parse release_lease_def
        demo_held_lan_def demo_release_env_def demo_denv_def)
  ultimately show ?thesis by (simp add: handle_message_def demo_release_context)
qed

theorem datagram_keeps_other_leases_witness:
  "\<exists>m. decode (d_codec demo_release_env) [] = Some m \<and>
     ((msg_type m = Some Release \<and> lease_ip_address demo_held = show_ipv4 (m_ciaddr m)) \<or>
      msg_type m = Some Discover \<or> msg_type m = Some Request)"
proof -
  have "lease_keys_unique demo_held_lan" "distinct (map lease_id (leases demo_held_lan))"
    "demo_held \<in> set (leases demo_held_lan)" "holds_address demo_held"
    by (simp_all add: lease_keys_unique_def demo_held_lan_def holds_address_def demo_held_def demo_lease_def)
  moreover have "demo_held \<notin> set (leases (fst (handle_message demo_release_env demo_held_lan [])))"
    by (simp add: demo_release_leases) (simp add: demo_held_def demo_lease_def)
  ultimately show ?thesis using datagram_keeps_other_leases by blast
qed

section \<open>A whole exchange\<close>

lemma read_context_again:
  assumes c: "read_context env st m = (st1, Some c)"
    and "pools st2 = pools st1" and "reservations st2 = reservations st1" and "configs st2 = configs st1"
    and ok: "\<forall>q. \<not> d_fails env' q" and bind: "d_bind env' = d_bind env"
    and gi: "m_giaddr m' = m_giaddr m"
    and ls: "list_leases (d_fails env') st2 (Some (pool_id (c_pool c))) = Inr ls"
  shows "read_context env' st2 m' = (st2, Some (c\<lparr>c_leases := ls\<rparr>))"
proof -
  let ?sel = "if m_giaddr m \<noteq> ipv4_unspecified then m_giaddr m else d_bind env"
  from c obtain ps where ps: "list_pools (d_fails env) st = Inr ps"
    by (auto simp: read_context_def split: sum.splits)
  with c obtain p where p: "select_pool (filter usable_v4 ps) ?sel = Some p"
    by (auto simp: read_context_def Let_def split: option.splits)
  with c ps obtain rs where rs: "list_reservations (d_fails env) st (pool_id p) = Inr rs"
    by (auto simp: read_context_def Let_def split: sum.splits)
  with c ps p obtain ls0 where ls0: "list_leases (d_fails env) st (Some (pool_id p)) = Inr ls0"
    by (auto simp: read_context_def Let_def split: sum.splits)
  obtain r where "get_dhcp_config (d_fails env) st = (st1, r)"
    using c ps p rs ls0 by (auto simp: read_context_def Let_def split: prod.splits sum.splits)
  with c ps p rs ls0 obtain cfg where cfg: "get_dhcp_config (d_fails env) st = (st1, Inr cfg)"
    by (cases r) (auto simp: read_context_def Let_def)
  have p2: "list_pools (d_fails env') st2 = Inr ps"
    using ps ok assms(2) read_context_keeps(2) [OF c] by (auto simp: list_pools_def split: if_splits)
  have rs2: "list_reservations (d_fails env') st2 (pool_id p) = Inr rs"
    using rs ok assms(3) read_context_keeps(3) [OF c]
    by (auto simp: list_reservations_def split: if_splits)
  have cp: "c_pool c = p" using c ps p rs ls0 cfg by (auto simp: read_context_def Let_def)
  have "\<exists>r. configs st1 = cfg # r"
    using cfg by (auto simp: get_dhcp_config_def split: if_splits list.splits)
  then have cfg2: "get_dhcp_config (d_fails env') st2 = (st2, Inr cfg)"
    using ok assms(4) by (auto simp: get_dhcp_config_def)
  show ?thesis
    using c ps p rs ls0 cfg p2 rs2 cfg2 ls bind gi cp
    by (auto simp: read_context_def Let_def cong: option.case_cong)
qed

lemma new_lease_current:
  assumes "persist_lease env st1 p ip mac hn s secs = (st2, True)" and "holds_state s"
    and "\<forall>l \<in> set (leases st1). lease_pool_ref l = p \<longrightarrow> \<not> lease_of_mac mac l"
    and "list_leases f st2 (Some p) = Inr ls"
  shows "current_lease_ip ls mac = Some ip"
proof -
  let ?row = "(new_lease env p ip mac hn s secs)\<lparr>lease_id := d_new_id env\<rparr>"
  have set: "l \<in> set ls \<Longrightarrow> lease_of_mac mac l \<Longrightarrow> l = ?row" for l
    using list_leases_set [OF assms(4)] persist_lease_True [OF assms(1)] assms(3) by auto
  have row: "?row \<in> set ls" "holds_address ?row" "lease_of_mac mac ?row"
    using list_leases_set [OF assms(4)] persist_lease_True [OF assms(1)] assms(2)
    by (auto simp: new_lease_def holds_address_def lease_of_mac_def)
  then have "List.find (lease_of_mac mac) (filter holds_address ls) \<noteq> None"
    by (auto simp: find_None_iff_all)
  then obtain l where l: "List.find (lease_of_mac mac) (filter holds_address ls) = Some l" by blast
  then have "l = ?row" using find_SomeD [OF l] set by auto
  with l show ?thesis by (simp add: current_lease_ip_def new_lease_def)
qed

lemma log_event_configs [simp]:
  "configs (log_event env t st) = configs st" "configs (log_event_at env lvl t st) = configs st"
  by (simp_all add: log_event_def log_event_at_def)

lemma persist_keeps_tables:
  assumes "persist_lease env st p ip mac hn s secs = (st2, b)"
  shows "pools st2 = pools st" "reservations st2 = reservations st" "configs st2 = configs st"
  using assms by (auto simp: persist_lease_def upsert_lease_def Let_def split: prod.splits if_splits)

lemma on_discover_tables:
  assumes "on_discover env st1 m mac c = (st2, Some r)"
  obtains ip st3 where
    "allocate_ip (c_pool c) (c_reservations c) (c_leases c) mac (requested_ip m) (d_part env) = Some ip"
    "persist_lease env st1 (pool_id (c_pool c)) ip mac (hostname m) Offered (c_secs c) = (st3, True)"
    "leases st2 = leases st3" "pools st2 = pools st1" "reservations st2 = reservations st1"
    "configs st2 = configs st1"
proof -
  obtain b dst where r: "r = (b, dst)" by (cases r)
  from assms [unfolded r] show thesis
  proof (rule on_discover_reply)
    fix ip st3
    assume a: "allocate_ip (c_pool c) (c_reservations c) (c_leases c) mac (requested_ip m) (d_part env) = Some ip"
      and p: "persist_lease env st1 (pool_id (c_pool c)) ip mac (hostname m) Offered (c_secs c) = (st3, True)"
      and l: "leases st2 = leases st3"
      and b: "build_reply (d_codec env) m Offer ip (c_pool c) (c_config c) (c_server_ip c) (c_secs c) = Some b"
    have "st2 = log_event env (''DHCPOFFER '' @ show_ipv4 ip @ '' -> '' @ mac) st3"
      using assms a p b by (simp add: on_discover_def)
    then show thesis using that [OF a p l] persist_keeps_tables [OF p] by simp
  qed
qed

lemma list_leases_ok: "\<forall>q. \<not> f q \<Longrightarrow> \<exists>ls. list_leases f st p = Inr ls"
  by (simp add: list_leases_def)

lemma persist_lease_ok:
  "\<forall>q. \<not> d_fails env q \<Longrightarrow> \<exists>st2. persist_lease env st p ip mac hn s secs = (st2, True)"
  by (simp add: persist_lease_def upsert_lease_def Let_def)

lemma on_request_ack:
  assumes "allocate_ip (c_pool c) (c_reservations c) (c_leases c) mac (wanted_ip m) (d_part env) = Some ip"
    and "wanted_ip m = None \<or> wanted_ip m = Some ip"
    and "persist_lease env st (pool_id (c_pool c)) ip mac (hostname m) Active (c_secs c) = (st1, True)"
    and "build_reply (d_codec env) m Ack ip (c_pool c) (c_config c) (c_server_ip c) (c_secs c) = Some b"
  shows "\<exists>st2. on_request env st m mac c = (st2, Some (b, reply_destination m)) \<and> leases st2 = leases st1"
  using assms by (auto simp: on_request_def Let_def)

text \<open>\<^bold>\<open>C15.\<close> The exchange completes. A client with no lease yet that was offered an address and then
  requests exactly that address, before anything else happens and while the database and the
  encoder work, is acknowledged that address with the offered parameters, whichever node of the
  pool it asks, and the store then holds its active lease.\<close>

theorem offer_then_request_is_acked:
  assumes "decode (d_codec env) b1 = Some m" and "msg_type m = Some Discover"
    and new: "\<forall>l \<in> set (leases st). \<not> lease_of_mac (client_mac m) l"
    and off: "handle_message env st b1 = (st1, Some r)"
    and c: "read_context env st m = (st0, Some c)"
    and a: "allocate_ip (c_pool c) (c_reservations c) (c_leases c) (client_mac m) (requested_ip m)
              (d_part env) = Some ip"
    and m': "decode (d_codec env') b2 = Some m'" "msg_type m' = Some Request"
      "client_mac m' = client_mac m" "m_giaddr m' = m_giaddr m" "wanted_ip m' = Some ip"
    and ok: "\<forall>q. \<not> d_fails env' q" "d_bind env' = d_bind env"
      "\<forall>x. to_vec (d_codec env') x \<noteq> None"
  shows "\<exists>st2 b. handle_message env' st1 b2 = (st2, Some (b, reply_destination m')) \<and>
    to_vec (d_codec env') (reply_message (d_codec env') m' Ack ip (c_pool c) (c_config c)
      (c_server_ip c) (c_secs c)) = Some b \<and>
    grants env' c (client_mac m') ip Active st2"
proof -
  have d: "on_discover env st0 m (client_mac m) c = (st1, Some r)"
    using assms(1,2) off c by (simp add: handle_message_def)
  obtain ip1 st3 where "allocate_ip (c_pool c) (c_reservations c) (c_leases c) (client_mac m)
        (requested_ip m) (d_part env) = Some ip1"
    and p: "persist_lease env st0 (pool_id (c_pool c)) ip1 (client_mac m) (hostname m) Offered
        (c_secs c) = (st3, True)"
    and t: "leases st1 = leases st3" "pools st1 = pools st0" "reservations st1 = reservations st0"
      "configs st1 = configs st0"
    using d by (rule on_discover_tables)
  with a have ip1: "ip1 = ip" by simp
  obtain ls where ls: "list_leases (d_fails env') st1 (Some (pool_id (c_pool c))) = Inr ls"
    using list_leases_ok [OF ok(1)] by blast
  have c': "read_context env' st1 m' = (st1, Some (c\<lparr>c_leases := ls\<rparr>))"
    using c t(2-4) ok(1,2) m'(4) ls by (rule read_context_again)
  have "list_leases (d_fails env') st3 (Some (pool_id (c_pool c))) = Inr ls"
    using ls t(1) ok(1) by (simp add: list_leases_def)
  then have "current_lease_ip ls (client_mac m) = Some ip"
    using new_lease_current [OF p [unfolded ip1], of "d_fails env'" ls] new read_context_keeps(1) [OF c]
    by simp
  then have a': "allocate_ip (c_pool c) (c_reservations c) ls (client_mac m') (wanted_ip m')
      (d_part env') = Some ip"
    unfolding m'(3) by (rule alloc.alloc_again [OF a])
  obtain st4 where p': "persist_lease env' st1 (pool_id (c_pool c)) ip (client_mac m') (hostname m')
      Active (c_secs c) = (st4, True)" using persist_lease_ok [OF ok(1)] by blast
  obtain b where b: "build_reply (d_codec env') m' Ack ip (c_pool c) (c_config c) (c_server_ip c)
      (c_secs c) = Some b" using ok(3) by (auto simp: build_reply_def)
  obtain st2 where "on_request env' st1 m' (client_mac m') (c\<lparr>c_leases := ls\<rparr>)
      = (st2, Some (b, reply_destination m'))" and l2: "leases st2 = leases st4"
    using on_request_ack [of "c\<lparr>c_leases := ls\<rparr>" "client_mac m'" m' env' ip st1 st4 b] a' p' b m'(5)
    by auto
  then have "handle_message env' st1 b2 = (st2, Some (b, reply_destination m'))"
    using m'(1,2) c' by (simp add: handle_message_def)
  with b persist_lease_grants [OF p' l2] show ?thesis by (auto simp: build_reply_def)
qed

theorem offer_then_request_is_acked_witness:
  "\<exists>st1 r st2 b. handle_message demo_denv demo_lan [1] = (st1, Some r) \<and>
     handle_message demo_denv st1 [2] = (st2, Some (b, broadcast_addr)) \<and>
     grants demo_denv demo_ctx (client_mac (demo_msg Request demo_chaddr (Some 0xC000020A))) 0xC000020A Active st2"
proof -
  obtain st1 b dst where h: "handle_message demo_denv demo_lan [1] = (st1, Some (b, dst))"
    using demo_discover_reply by blast
  note demo_dec = demo_decode [folded demo_denv_simps(1)]
  have m: "client_mac (demo_msg Request demo_chaddr x) = client_mac (demo_msg Discover demo_chaddr y)"
    "m_giaddr (demo_msg Request demo_chaddr x) = m_giaddr (demo_msg Discover demo_chaddr y)" for x y
    by (simp_all add: client_mac_def demo_msg_def)
  have "reply_destination (demo_msg Request demo_chaddr (Some 0xC000020A)) = broadcast_addr"
    by (simp add: reply_destination_def demo_msg_def ipv4_unspecified_def)
  moreover have "\<exists>st2 b. handle_message demo_denv st1 [2] =
      (st2, Some (b, reply_destination (demo_msg Request demo_chaddr (Some 0xC000020A)))) \<and>
    to_vec (d_codec demo_denv) (reply_message (d_codec demo_denv)
      (demo_msg Request demo_chaddr (Some 0xC000020A)) Ack 0xC000020A (c_pool demo_ctx)
      (c_config demo_ctx) (c_server_ip demo_ctx) (c_secs demo_ctx)) = Some b \<and>
    grants demo_denv demo_ctx (client_mac (demo_msg Request demo_chaddr (Some 0xC000020A))) 0xC000020A
      Active st2"
    by (rule offer_then_request_is_acked [OF demo_dec(1) _ _ h demo_context])
      (simp_all add: demo_decode demo_alloc demo_to_vec m demo_lan_def empty_dhcp_store_def)
  ultimately show ?thesis using h by metis
qed

section \<open>Several nodes\<close>

text \<open>\<^bold>\<open>C16.\<close> Split scope keeps fresh allocations apart. Two different nodes of a pool whose range has
  at least as many addresses as there are nodes never pick the same address for clients that have
  no reservation and no lease and name no address, whatever each node's tables say.\<close>

theorem nodes_allocate_apart:
  assumes "1 < n" and "i < n" and "j < n" and "i \<noteq> j"
    and "v4_range pool = Some (s, e)" and "unat n \<le> unat e - unat s + 1"
    and "reservation_ip rs mac = None" and "current_lease_ip ls mac = None"
    and "allocate_ip pool rs ls mac None (Some \<lparr>part_index = i, part_count = n\<rparr>) = Some a"
    and "reservation_ip rs' mac' = None" and "current_lease_ip ls' mac' = None"
    and "allocate_ip pool rs' ls' mac' None (Some \<lparr>part_index = j, part_count = n\<rparr>) = Some b"
  shows "a \<noteq> b"
proof
  assume "a = b"
  let ?in = "\<lambda>k x. in_range x (fst (slice_range \<lparr>part_index = k, part_count = n\<rparr> s e))
                            (snd (slice_range \<lparr>part_index = k, part_count = n\<rparr> s e))"
  have se: "s \<le> e"
    using assms(5,7,9) by (auto simp: allocate_ip_def split: if_splits)
  have "?in i a" "?in j b"
    using allocate_ip_first_free(1,2) [OF assms(9,7,8,5)] allocate_ip_first_free(1,2) [OF assms(12,10,11,5)]
    by (simp_all add: node_range_def in_range_def)
  moreover have "in_range a s e"
    using allocate_ip_dynamic [OF assms(9,7)] assms(5) by (metis option.inject prod.inject)
  ultimately show False
    using slice_ex1 [OF assms(1) se assms(6)] assms(2-4) \<open>a = b\<close> by blast
qed

lemma demo_slice:
  "slice_range \<lparr>part_index = 0, part_count = 2\<rparr> 0xC000020A 0xC000020C = (0xC000020A, 0xC000020A)"
  "slice_range \<lparr>part_index = 1, part_count = 2\<rparr> 0xC000020A 0xC000020C = (0xC000020B, 0xC000020C)"
  by (simp_all add: slice_range_def unwrap_or_def u32_try_from_def Let_def word_le_nat_alt)

lemma demo_fresh:
  "allocate_ip (c_pool demo_ctx) [] [] mac None (Some \<lparr>part_index = 0, part_count = 2\<rparr>) = Some 0xC000020A"
  "allocate_ip (c_pool demo_ctx) [] [] mac None (Some \<lparr>part_index = 1, part_count = 2\<rparr>) = Some 0xC000020B"
proof -
  have upt: "[3221225994..<3221225995] = [3221225994 :: nat]"
    "[3221225995..<3221225997] = [3221225995, 3221225996 :: nat]"
    by (simp_all add: upt_conv_Cons)
  show "allocate_ip (c_pool demo_ctx) [] [] mac None (Some \<lparr>part_index = 0, part_count = 2\<rparr>) = Some 0xC000020A"
    by (simp add: allocate_ip_def demo_ctx_def demo_lan_range reservation_ip_def current_lease_ip_def
        reserved_ips_def held_by_other_def map_filter_simps demo_slice find_range_def upt)
  show "allocate_ip (c_pool demo_ctx) [] [] mac None (Some \<lparr>part_index = 1, part_count = 2\<rparr>) = Some 0xC000020B"
    by (simp add: allocate_ip_def demo_ctx_def demo_lan_range reservation_ip_def current_lease_ip_def
        reserved_ips_def held_by_other_def map_filter_simps demo_slice find_range_def upt)
qed

theorem nodes_allocate_apart_witness:
  "\<exists>a b. allocate_ip (c_pool demo_ctx) [] [] ''a'' None (Some \<lparr>part_index = 0, part_count = 2\<rparr>) = Some a \<and>
     allocate_ip (c_pool demo_ctx) [] [] ''b'' None (Some \<lparr>part_index = 1, part_count = 2\<rparr>) = Some b \<and>
     a \<noteq> b"
proof (intro exI conjI)
  show "(0xC000020A :: ipv4) \<noteq> 0xC000020B"
    by (rule nodes_allocate_apart [OF _ _ _ _ _ _ _ _ demo_fresh(1) [of "''a''"] _ _ demo_fresh(2) [of "''b''"],
          where s = "0xC000020A" and e = "0xC000020C"])
      (simp_all add: demo_ctx_def demo_lan_range reservation_ip_def current_lease_ip_def)
qed (rule demo_fresh)+

text \<open>\<^bold>\<open>C17.\<close> A requested address is not confined to the node's slice. A client with no reservation
  and no lease that names a free address of the pool range gets it from every node, so two nodes
  that have not yet replicated give the same requested address to two clients.\<close>

theorem requested_address_on_any_node:
  assumes "reservation_ip rs mac = None" and "current_lease_ip ls mac = None"
    and "v4_range pool = Some (s, e)" and "in_range n s e" and "\<not> taken rs ls mac n"
  shows "allocate_ip pool rs ls mac (Some n) part = Some n"
  using assms by (auto simp: allocate_ip_def Let_def in_range_def taken_def)

theorem requested_address_on_any_node_witness:
  "allocate_ip (c_pool demo_ctx) [] [] ''a'' (Some 0xC000020C) (Some \<lparr>part_index = 0, part_count = 2\<rparr>) = Some 0xC000020C \<and>
   allocate_ip (c_pool demo_ctx) [] [] ''b'' (Some 0xC000020C) (Some \<lparr>part_index = 1, part_count = 2\<rparr>) = Some 0xC000020C"
proof -
  have "allocate_ip (c_pool demo_ctx) [] [] mac (Some 0xC000020C) part = Some 0xC000020C" for mac part
    by (rule requested_address_on_any_node [where s = "0xC000020A" and e = "0xC000020C"])
      (simp_all add: reservation_ip_def current_lease_ip_def demo_ctx_def demo_lan_range in_range_def
        taken_def reserved_ips_def held_by_other_def map_filter_simps)
  then show ?thesis by blast
qed

section \<open>Timers\<close>

lemma reply_options:
  "m_opts (reply_message cd req t ip p cfg sip secs) CAddressLeaseTime = Some (AddressLeaseTime secs)"
  "m_opts (reply_message cd req t ip p cfg sip secs) CRenewal = Some (Renewal (secs div 2))"
  "m_opts (reply_message cd req t ip p cfg sip secs) CRebinding = Some (Rebinding (secs * 7 div 8))"
  by (simp_all add: reply_message_def Let_def insert_opt_def insert_opt_if_def split: option.split)

text \<open>\<^bold>\<open>C18.\<close> The lease timers of a reply are ordered, renewal before rebinding before expiry, as long
  as seven times the lease time fits 32 bits; for the infinite lease time 0xFFFFFFFF the product
  wraps and the rebinding time comes before the renewal time.\<close>

theorem lease_timers_ordered:
  "(unat secs \<le> 613566756 \<longrightarrow>
     (\<exists>t1 t2. m_opts (reply_message cd req t ip p cfg sip secs) CRenewal = Some (Renewal t1) \<and>
        m_opts (reply_message cd req t ip p cfg sip secs) CRebinding = Some (Rebinding t2) \<and>
        t1 \<le> t2 \<and> t2 \<le> secs)) \<and>
   (\<exists>t1 t2. m_opts (reply_message cd req t ip p cfg sip 0xFFFFFFFF) CRenewal = Some (Renewal t1) \<and>
      m_opts (reply_message cd req t ip p cfg sip 0xFFFFFFFF) CRebinding = Some (Rebinding t2) \<and>
      t2 < t1)"
proof -
  have "secs div 2 \<le> secs * 7 div 8 \<and> secs * 7 div 8 \<le> secs" if "unat secs \<le> 613566756"
  proof -
    have "unat (secs * 7) = unat secs * 7"
      using that by (subst unat_mult_lem [THEN iffD1]) simp_all
    moreover have "x div 2 \<le> x * 7 div 8 \<and> x * 7 div 8 \<le> x" for x :: nat
      by (auto simp: less_eq_div_iff_mult_less_eq div_le_mono [of "x * 7" "x * 8" 8, simplified])
    ultimately show ?thesis by (simp add: word_le_nat_alt unat_div)
  qed
  then show ?thesis by (auto simp: reply_options)
qed

theorem lease_timers_ordered_witness:
  "\<exists>t1 t2. m_opts (reply_message demo_codec (demo_msg Request demo_chaddr None) Ack 0 (c_pool demo_ctx)
       default_dhcp_config 0 3600) CRenewal = Some (Renewal t1) \<and>
     m_opts (reply_message demo_codec (demo_msg Request demo_chaddr None) Ack 0 (c_pool demo_ctx)
       default_dhcp_config 0 3600) CRebinding = Some (Rebinding t2) \<and> t1 \<le> t2 \<and> t2 \<le> 3600"
  using lease_timers_ordered [of 3600 demo_codec "demo_msg Request demo_chaddr None" Ack 0
      "c_pool demo_ctx" default_dhcp_config 0] by simp

end
