(* ===== verification/Failover.thy ===== *)
theory Failover
  imports Rust_Result
begin

text \<open>
  The failover evaluator of the control plane, \<^verbatim>\<open>magnetite-center/src/failover.rs\<close>: a pure function
  from the snapshot of a cluster to the decision. Its four stages are definitions of their own;
  the lemmas give each stage's part of the decision.

  A server id is the text of a UUID. The failure counter is a natural number: the database
  counts it, and a row reaches the bound of the record's 32 bits after 4294967296 missed polls.
\<close>

section \<open>Data\<close>

datatype role_intent = PrimaryIntent | StandbyIntent | UnsetIntent

fun intent_as_str :: "role_intent \<Rightarrow> string" where
  "intent_as_str PrimaryIntent = ''primary''"
| "intent_as_str StandbyIntent = ''standby''"
| "intent_as_str UnsetIntent = ''unset''"

definition parse_intent :: "string \<Rightarrow> role_intent option" where
  "parse_intent s =
     (let t = to_ascii_lowercase (trim s) in
      if t = ''primary'' then Some PrimaryIntent
      else if t = ''standby'' then Some StandbyIntent
      else if t = [] \<or> t = ''unset'' \<or> t = ''none'' then Some UnsetIntent
      else None)"

datatype action = Promote string | Demote string

record server_view =
  sv_sid :: string
  sv_intent :: role_intent
  sv_healthy :: bool
  sv_failures :: nat
  sv_fenced :: bool
  sv_acts_primary :: bool

record cluster_view =
  cv_auto_failover :: bool
  cv_threshold :: nat
  cv_active :: "string option"
  cv_servers :: "server_view list"

record failover_decision =
  fd_actions :: "action list"
  fd_new_active :: "string option"
  fd_fence :: "string list"
  fd_unfence :: "string list"
  fd_log :: "string list"

definition default_decision :: failover_decision where
  "default_decision =
     \<lparr>fd_actions = [], fd_new_active = None, fd_fence = [], fd_unfence = [], fd_log = []\<rparr>"

definition decision_is_empty :: "failover_decision \<Rightarrow> bool" where
  "decision_is_empty d \<longleftrightarrow>
     fd_actions d = [] \<and> fd_new_active d = None \<and> fd_fence d = [] \<and> fd_unfence d = []"

definition find_server :: "server_view list \<Rightarrow> string \<Rightarrow> server_view option" where
  "find_server ss sid = List.find (\<lambda>s. sv_sid s = sid) ss"

section \<open>The evaluator\<close>

text \<open>The recorded active primary, or the healthy designated one when none is recorded.\<close>

definition resolve_active :: "cluster_view \<Rightarrow> string option \<times> failover_decision" where
  "resolve_active v =
     (case cv_active v of
        Some a \<Rightarrow> (Some a, default_decision)
      | None \<Rightarrow>
          (case List.find (\<lambda>s. sv_intent s = PrimaryIntent \<and> sv_healthy s) (cv_servers v) of
             Some p \<Rightarrow> (Some (sv_sid p), default_decision\<lparr>fd_new_active := Some (sv_sid p)\<rparr>)
           | None \<Rightarrow> (None, default_decision)))"

definition active_down :: "cluster_view \<Rightarrow> string option \<Rightarrow> bool" where
  "active_down v active =
     (case active of
        None \<Rightarrow> False
      | Some sid \<Rightarrow>
          (case find_server (cv_servers v) sid of
             None \<Rightarrow> False
           | Some s \<Rightarrow> \<not> sv_healthy s \<and> max (cv_threshold v) 1 \<le> sv_failures s))"

definition is_candidate :: "server_view \<Rightarrow> bool" where
  "is_candidate s \<longleftrightarrow> sv_intent s = StandbyIntent \<and> sv_healthy s \<and> \<not> sv_fenced s"

definition candidates :: "cluster_view \<Rightarrow> server_view list" where
  "candidates v = sort_key sv_sid (filter is_candidate (cv_servers v))"

definition or_default :: "string option \<Rightarrow> string" where
  "or_default x = (case x of None \<Rightarrow> [] | Some s \<Rightarrow> s)"

text \<open>The two non-ASCII signs of the log lines, in UTF-8.\<close>

definition ge_sign :: string where
  "ge_sign = [CHR 0xE2, CHR 0x89, CHR 0xA5]"

definition arrow_sign :: string where
  "arrow_sign = [CHR 0xE2, CHR 0x86, CHR 0x92]"

definition auto_promote ::
  "cluster_view \<Rightarrow> string option \<times> failover_decision \<Rightarrow> string option \<times> failover_decision" where
  "auto_promote v p =
     (case p of (active, d) \<Rightarrow>
        if active_down v active then
          (case candidates v of
             standby # _ \<Rightarrow>
               (Some (sv_sid standby),
                d\<lparr>fd_actions := fd_actions d @ [Promote (sv_sid standby)],
                  fd_new_active := Some (sv_sid standby),
                  fd_fence := fd_fence d @ (if or_default active \<noteq> [] then [or_default active] else []),
                  fd_log := fd_log d @ [''auto-failover: primary '' @ or_default active @ '' down '' @ ge_sign
                    @ show_nat (max (cv_threshold v) 1) @ '' polls '' @ arrow_sign
                    @ '' promoted standby '' @ sv_sid standby]\<rparr>)
           | [] \<Rightarrow>
               (active, d\<lparr>fd_log := fd_log d @
                  [''auto-failover: active primary down but no healthy standby available'']\<rparr>))
        else (active, d))"

definition fence_one :: "string \<Rightarrow> server_view \<Rightarrow> failover_decision \<Rightarrow> failover_decision" where
  "fence_one active_sid s d =
     (if sv_fenced s \<and> sv_healthy s \<and> sv_sid s \<noteq> active_sid then
        d\<lparr>fd_actions := fd_actions d @ (if sv_acts_primary s then [Demote (sv_sid s)] else []),
          fd_unfence := fd_unfence d @ [sv_sid s],
          fd_log := fd_log d @ [''fencing: former primary '' @ sv_sid s @ '' recovered '' @ arrow_sign
            @ '' demoted to secondary'']\<rparr>
      else d)"

definition guard_one :: "string \<Rightarrow> server_view \<Rightarrow> failover_decision \<Rightarrow> failover_decision" where
  "guard_one active_sid s d =
     (if sv_healthy s \<and> sv_acts_primary s \<and> sv_sid s \<noteq> active_sid \<and> \<not> sv_fenced s
         \<and> Demote (sv_sid s) \<notin> set (fd_actions d) then
        d\<lparr>fd_actions := fd_actions d @ [Demote (sv_sid s)],
          fd_log := fd_log d @ [''split-brain guard: '' @ sv_sid s
            @ '' acts as primary but is not the active primary '' @ arrow_sign @ '' demoted'']\<rparr>
      else d)"

definition evaluate :: "cluster_view \<Rightarrow> failover_decision" where
  "evaluate v =
     (if \<not> cv_auto_failover v then default_decision
      else
        (case auto_promote v (resolve_active v) of (active, d) \<Rightarrow>
           let active_sid = or_default active;
               d1 = fold (fence_one active_sid) (cv_servers v) d
           in fold (guard_one active_sid) (cv_servers v) d1))"

section \<open>What each stage adds\<close>

named_theorems stage_simps "what the loops of the evaluator leave alone"

lemma fence_one_keeps [stage_simps]:
  "fd_new_active (fence_one a s d) = fd_new_active d" "fd_fence (fence_one a s d) = fd_fence d"
  by (simp_all add: fence_one_def)

lemma guard_one_keeps [stage_simps]:
  "fd_new_active (guard_one a s d) = fd_new_active d" "fd_fence (guard_one a s d) = fd_fence d"
  "fd_unfence (guard_one a s d) = fd_unfence d"
  by (simp_all add: guard_one_def)

lemma fold_fence_keeps [stage_simps]:
  "fd_new_active (fold (fence_one a) ss d) = fd_new_active d"
  "fd_fence (fold (fence_one a) ss d) = fd_fence d"
  by (induction ss arbitrary: d) (simp_all add: fence_one_keeps)

lemma fold_guard_keeps [stage_simps]:
  "fd_new_active (fold (guard_one a) ss d) = fd_new_active d"
  "fd_fence (fold (guard_one a) ss d) = fd_fence d"
  "fd_unfence (fold (guard_one a) ss d) = fd_unfence d"
  by (induction ss arbitrary: d) (simp_all add: guard_one_keeps)

definition returns_fenced :: "string \<Rightarrow> server_view \<Rightarrow> bool" where
  "returns_fenced a s \<longleftrightarrow> sv_fenced s \<and> sv_healthy s \<and> sv_sid s \<noteq> a"

lemma fence_actions:
  "set (fd_actions (fold (fence_one a) ss d)) =
     set (fd_actions d) \<union> {Demote (sv_sid s) |s. s \<in> set ss \<and> returns_fenced a s \<and> sv_acts_primary s}"
  by (induction ss arbitrary: d) (auto simp: fence_one_def returns_fenced_def)

lemma fence_unfence:
  "fd_unfence (fold (fence_one a) ss d) =
     fd_unfence d @ map sv_sid (filter (returns_fenced a) ss)"
  by (induction ss arbitrary: d) (auto simp: fence_one_def returns_fenced_def)

lemma guard_actions:
  "set (fd_actions (fold (guard_one a) ss d)) =
     set (fd_actions d) \<union>
     {Demote (sv_sid s) |s. s \<in> set ss \<and> sv_healthy s \<and> sv_acts_primary s \<and> sv_sid s \<noteq> a \<and> \<not> sv_fenced s}"
proof (induction ss arbitrary: d)
  case (Cons s ss)
  show ?case by (simp add: Cons) (auto simp: guard_one_def)
qed simp

text \<open>The active primary after the pass, and the stages' result at it.\<close>

definition active_after :: "cluster_view \<Rightarrow> string" where
  "active_after v =
     (case fd_new_active (evaluate v) of Some a \<Rightarrow> a | None \<Rightarrow> or_default (cv_active v))"

lemma auto_promote_active:
  "auto_promote v (resolve_active v) = (active, d) \<Longrightarrow>
     or_default active = (case fd_new_active d of Some a \<Rightarrow> a | None \<Rightarrow> or_default (cv_active v))"
  by (auto simp: auto_promote_def resolve_active_def default_decision_def or_default_def
      split: if_splits list.splits option.splits)

lemma evaluate_armed:
  assumes "cv_auto_failover v"
  obtains active d where "auto_promote v (resolve_active v) = (active, d)"
    and "or_default active = active_after v"
    and "evaluate v = fold (guard_one (active_after v)) (cv_servers v)
                        (fold (fence_one (active_after v)) (cv_servers v) d)"
proof -
  obtain active d where ap: "auto_promote v (resolve_active v) = (active, d)" by force
  let ?a = "or_default active"
  have ev: "evaluate v = fold (guard_one ?a) (cv_servers v) (fold (fence_one ?a) (cv_servers v) d)"
    using assms ap by (simp add: evaluate_def Let_def)
  have "?a = active_after v"
    using auto_promote_active [OF ap] by (simp add: active_after_def ev stage_simps)
  with ap ev that show thesis by metis
qed

lemma resolve_active_decision:
  "resolve_active v = (active, d) \<Longrightarrow> fd_actions d = [] \<and> fd_fence d = [] \<and> fd_unfence d = []"
  by (auto simp: resolve_active_def default_decision_def split: option.splits)

lemma auto_promote_parts:
  assumes "auto_promote v (resolve_active v) = (active, d)"
  shows "fd_unfence d = []"
    and "set (fd_actions d) \<subseteq> {Promote (or_default active)}"
proof -
  obtain a0 d0 where r: "resolve_active v = (a0, d0)" by force
  note p = resolve_active_decision [OF r]
  show "fd_unfence d = []" and "set (fd_actions d) \<subseteq> {Promote (or_default active)}"
    using assms p by (auto simp: r auto_promote_def or_default_def split: if_splits list.splits)
qed

lemma evaluate_demotes:
  assumes "cv_auto_failover v"
  shows "Demote x \<in> set (fd_actions (evaluate v)) \<longleftrightarrow>
    (\<exists>s \<in> set (cv_servers v). sv_sid s = x \<and> sv_healthy s \<and> sv_acts_primary s \<and> x \<noteq> active_after v)"
proof -
  obtain active d where ap: "auto_promote v (resolve_active v) = (active, d)"
    and ev: "evaluate v = fold (guard_one (active_after v)) (cv_servers v)
                            (fold (fence_one (active_after v)) (cv_servers v) d)"
    by (rule evaluate_armed [OF assms])
  have "Demote x \<notin> set (fd_actions d)" using auto_promote_parts(2) [OF ap] by auto
  then show ?thesis
    unfolding ev guard_actions fence_actions returns_fenced_def by auto
qed

lemma evaluate_promotes:
  assumes "cv_auto_failover v"
  shows "Promote x \<in> set (fd_actions (evaluate v)) \<longleftrightarrow>
    active_down v (fst (resolve_active v)) \<and> (\<exists>c cs. candidates v = c # cs \<and> x = sv_sid c)"
proof -
  obtain active d where ap: "auto_promote v (resolve_active v) = (active, d)"
    and ev: "evaluate v = fold (guard_one (active_after v)) (cv_servers v)
                            (fold (fence_one (active_after v)) (cv_servers v) d)"
    by (rule evaluate_armed [OF assms])
  obtain a0 d0 where r: "resolve_active v = (a0, d0)" by force
  have "Promote x \<in> set (fd_actions (evaluate v)) \<longleftrightarrow> Promote x \<in> set (fd_actions d)"
    unfolding ev guard_actions fence_actions by auto
  also have "\<dots> \<longleftrightarrow> active_down v a0 \<and> (\<exists>c cs. candidates v = c # cs \<and> x = sv_sid c)"
    using ap resolve_active_decision [OF r]
    by (auto simp: r auto_promote_def split: if_splits list.splits)
  finally show ?thesis by (simp add: r)
qed

lemma resolve_active_up:
  assumes "distinct (map sv_sid (cv_servers v))" and "cv_active v = None"
  shows "\<not> active_down v (fst (resolve_active v))"
proof (cases "List.find (\<lambda>s. sv_intent s = PrimaryIntent \<and> sv_healthy s) (cv_servers v)")
  case None
  with assms show ?thesis by (simp add: resolve_active_def active_down_def)
next
  case (Some p)
  then have p: "p \<in> set (cv_servers v)" "sv_healthy p" by (auto simp: find_Some_iff)
  have "s = p" if "find_server (cv_servers v) (sv_sid p) = Some s" for s
    using that p assms(1) by (auto simp: find_server_def find_Some_iff distinct_map dest: inj_onD)
  with Some p assms show ?thesis
    by (auto simp: resolve_active_def active_down_def split: option.splits)
qed

lemma candidates_hd:
  assumes "candidates v = c # cs"
  shows "c \<in> set (cv_servers v)" and "is_candidate c"
    and "\<And>s. s \<in> set (cv_servers v) \<Longrightarrow> is_candidate s \<Longrightarrow> sv_sid c \<le> sv_sid s"
proof -
  have "c \<in> set (candidates v)" by (simp add: assms)
  then show "c \<in> set (cv_servers v)" and "is_candidate c" by (simp_all add: candidates_def)
  have "sorted (map sv_sid (candidates v))" by (simp add: candidates_def)
  then have "\<forall>s \<in> set (candidates v). sv_sid c \<le> sv_sid s" by (simp add: assms)
  then show "\<And>s. s \<in> set (cv_servers v) \<Longrightarrow> is_candidate s \<Longrightarrow> sv_sid c \<le> sv_sid s"
    by (simp add: candidates_def)
qed

lemma candidates_Nil: "candidates v = [] \<longleftrightarrow> (\<forall>s \<in> set (cv_servers v). \<not> is_candidate s)"
  by (metis (no_types, lifting) candidates_def filter_empty_conv set_empty set_sort)

section \<open>Properties\<close>

text \<open>Whether a server acts as primary once the actions have been carried out.\<close>

definition acts_after :: "action list \<Rightarrow> server_view \<Rightarrow> bool" where
  "acts_after acts s \<longleftrightarrow>
     Promote (sv_sid s) \<in> set acts \<or> sv_acts_primary s \<and> Demote (sv_sid s) \<notin> set acts"

lemma promoted_is_active:
  assumes "cv_auto_failover v" and "Promote x \<in> set (fd_actions (evaluate v))"
  shows "fd_new_active (evaluate v) = Some x" and "active_after v = x"
    and "fd_fence (evaluate v) =
           (if or_default (fst (resolve_active v)) \<noteq> [] then [or_default (fst (resolve_active v))] else [])"
proof -
  obtain active d where ap: "auto_promote v (resolve_active v) = (active, d)"
    and ev: "evaluate v = fold (guard_one (active_after v)) (cv_servers v)
                            (fold (fence_one (active_after v)) (cv_servers v) d)"
    by (rule evaluate_armed [OF assms(1)])
  obtain a0 d0 where r: "resolve_active v = (a0, d0)" by force
  from assms evaluate_promotes obtain c cs
    where "active_down v a0" and "candidates v = c # cs" and "x = sv_sid c"
    by (auto simp: r)
  with ap have d: "fd_new_active d = Some x" "fd_fence d = (if or_default a0 \<noteq> [] then [or_default a0] else [])"
    using resolve_active_decision [OF r] by (auto simp: r auto_promote_def)
  show na: "fd_new_active (evaluate v) = Some x" by (simp add: ev stage_simps d)
  then show "active_after v = x" by (simp add: active_after_def)
  show "fd_fence (evaluate v) =
           (if or_default (fst (resolve_active v)) \<noteq> [] then [or_default (fst (resolve_active v))] else [])"
    by (simp add: ev stage_simps d r)
qed

text \<open>
  \<^bold>\<open>C21.\<close> The split-brain guard: in an armed cluster, once the actions of a pass have been carried
  out the only reachable server that can act as primary is the active one, and the actions never
  demote that one.
\<close>

theorem evaluate_single_primary:
  assumes "cv_auto_failover v"
  shows "(\<forall>s \<in> set (cv_servers v).
            sv_healthy s \<and> acts_after (fd_actions (evaluate v)) s \<longrightarrow> sv_sid s = active_after v) \<and>
         Demote (active_after v) \<notin> set (fd_actions (evaluate v))"
proof (intro conjI ballI impI)
  fix s assume "s \<in> set (cv_servers v)" and "sv_healthy s \<and> acts_after (fd_actions (evaluate v)) s"
  then show "sv_sid s = active_after v"
    using promoted_is_active(2) [OF assms] evaluate_demotes [OF assms]
    by (auto simp: acts_after_def)
qed (simp add: evaluate_demotes [OF assms])

text \<open>
  \<^bold>\<open>C24.\<close> Promotion: with distinct server ids, a server is promoted exactly when the recorded active
  primary is unreachable and has missed at least the threshold of polls (at least one), and it is
  the least id among the reachable, unfenced standbys. It then becomes the active primary, and the
  old one is fenced.
\<close>

theorem evaluate_promotion:
  assumes "cv_auto_failover v" and "distinct (map sv_sid (cv_servers v))" and "cv_active v \<noteq> Some []"
  shows "(Promote x \<in> set (fd_actions (evaluate v)) \<longleftrightarrow>
      (\<exists>p \<in> set (cv_servers v). cv_active v = Some (sv_sid p) \<and> \<not> sv_healthy p
          \<and> max (cv_threshold v) 1 \<le> sv_failures p) \<and>
      (\<exists>c \<in> set (cv_servers v). sv_sid c = x \<and> is_candidate c) \<and>
      (\<forall>c \<in> set (cv_servers v). is_candidate c \<longrightarrow> x \<le> sv_sid c)) \<and>
    (Promote x \<in> set (fd_actions (evaluate v)) \<longrightarrow>
      fd_new_active (evaluate v) = Some x \<and> (\<exists>a. cv_active v = Some a \<and> fd_fence (evaluate v) = [a]))"
    (is "(?L \<longleftrightarrow> ?R) \<and> (?L \<longrightarrow> ?C)")
proof -
  note ep = evaluate_promotes [OF assms(1)]
  have LRC: "?R \<and> ?C" if L: ?L
  proof -
    from L ep obtain c cs
      where dn: "active_down v (fst (resolve_active v))" and c: "candidates v = c # cs" "x = sv_sid c"
      by auto
    from dn resolve_active_up [OF assms(2)] obtain a where a: "cv_active v = Some a" by fastforce
    then have ra: "fst (resolve_active v) = Some a" by (simp add: resolve_active_def)
    with dn obtain p where "p \<in> set (cv_servers v)" "sv_sid p = a" "\<not> sv_healthy p"
        "max (cv_threshold v) 1 \<le> sv_failures p"
      by (auto simp: active_down_def find_server_def split: option.splits dest!: find_SomeD)
    then have ?R using a c candidates_hd [OF c(1)] by blast
    moreover have "fd_fence (evaluate v) = [a]"
      using promoted_is_active(3) [OF assms(1) L] assms(3) a by (auto simp: ra or_default_def)
    ultimately show ?thesis using a promoted_is_active(1) [OF assms(1) L] by blast
  qed
  moreover have ?L if R: ?R
  proof -
    from R obtain p where p: "p \<in> set (cv_servers v)" "cv_active v = Some (sv_sid p)" "\<not> sv_healthy p"
        "max (cv_threshold v) 1 \<le> sv_failures p" by blast
    have "find_server (cv_servers v) (sv_sid p) = Some p"
      using p(1) assms(2) by (simp add: find_server_def find_distinct_key)
    with p have "active_down v (fst (resolve_active v))"
      by (simp add: active_down_def resolve_active_def)
    moreover from R obtain c cs where c: "candidates v = c # cs"
      by (cases "candidates v") (auto simp: candidates_Nil)
    moreover have "sv_sid c = x"
      using R candidates_hd(1,2) [OF c] candidates_hd(3) [OF c] by (auto intro: order_antisym)
    ultimately show ?thesis using ep by auto
  qed
  ultimately show ?thesis by blast
qed

text \<open>
  \<^bold>\<open>C28.\<close> With no recorded active primary and no reachable server designated as primary, an armed
  cluster has every reachable primary demoted and nobody promoted, also a server whose intent is
  unset.
\<close>

theorem unset_primary_is_demoted:
  assumes "cv_auto_failover v" and "cv_active v = None"
    and "\<forall>s \<in> set (cv_servers v). sv_sid s \<noteq> [] \<and> (sv_intent s = PrimaryIntent \<longrightarrow> \<not> sv_healthy s)"
  shows "(\<forall>s \<in> set (cv_servers v). sv_healthy s \<and> sv_acts_primary s \<longrightarrow>
            Demote (sv_sid s) \<in> set (fd_actions (evaluate v))) \<and>
         (\<forall>s \<in> set (cv_servers v). sv_healthy s \<longrightarrow> \<not> acts_after (fd_actions (evaluate v)) s)"
proof -
  have "List.find (\<lambda>s. sv_intent s = PrimaryIntent \<and> sv_healthy s) (cv_servers v) = None"
    using assms(3) by (auto simp: find_None_iff)
  then have r: "resolve_active v = (None, default_decision)" by (simp add: resolve_active_def assms(2))
  have np: "Promote x \<notin> set (fd_actions (evaluate v))" for x
    using evaluate_promotes [OF assms(1)] by (simp add: r active_down_def)
  obtain active d where "auto_promote v (resolve_active v) = (active, d)" "or_default active = active_after v"
    by (rule evaluate_armed [OF assms(1)])
  then have "active_after v = []" by (auto simp: r auto_promote_def active_down_def or_default_def)
  with assms(3) have dem: "Demote (sv_sid s) \<in> set (fd_actions (evaluate v))"
    if "s \<in> set (cv_servers v)" "sv_healthy s" "sv_acts_primary s" for s
    using that evaluate_demotes [OF assms(1)] by auto
  then show ?thesis using np by (auto simp: acts_after_def)
qed

section \<open>Witnesses\<close>

text \<open>A primary that has missed three polls, a standby, and a server without intent that acts as primary.\<close>

definition demo_server_view :: "string \<Rightarrow> role_intent \<Rightarrow> bool \<Rightarrow> nat \<Rightarrow> bool \<Rightarrow> server_view" where
  "demo_server_view sid i ok n acts =
     \<lparr>sv_sid = sid, sv_intent = i, sv_healthy = ok, sv_failures = n, sv_fenced = False, sv_acts_primary = acts\<rparr>"

definition demo_cluster_view :: "string option \<Rightarrow> cluster_view" where
  "demo_cluster_view a =
     \<lparr>cv_auto_failover = True, cv_threshold = 3, cv_active = a,
      cv_servers = [demo_server_view ''a'' PrimaryIntent False 3 True,
                    demo_server_view ''b'' StandbyIntent True 0 False,
                    demo_server_view ''c'' UnsetIntent True 0 True]\<rparr>"

lemmas demo_view_defs = demo_cluster_view_def demo_server_view_def

lemma evaluate_single_primary_witness:
  "acts_after (fd_actions (evaluate (demo_cluster_view (Some ''a'')))) (demo_server_view ''b'' StandbyIntent True 0 False) \<and>
   active_after (demo_cluster_view (Some ''a'')) = ''b'' \<and>
   Demote ''b'' \<notin> set (fd_actions (evaluate (demo_cluster_view (Some ''a''))))"
proof -
  let ?v = "demo_cluster_view (Some ''a'')" and ?b = "demo_server_view ''b'' StandbyIntent True 0 False"
  have acts: "acts_after (fd_actions (evaluate ?v)) ?b" by code_simp
  have "cv_auto_failover ?v" "?b \<in> set (cv_servers ?v)" "sv_healthy ?b" "sv_sid ?b = ''b''"
    by (simp_all add: demo_view_defs)
  with evaluate_single_primary [of ?v] acts show ?thesis by auto
qed

lemma evaluate_promotion_witness:
  "Promote ''b'' \<in> set (fd_actions (evaluate (demo_cluster_view (Some ''a'')))) \<and>
   fd_fence (evaluate (demo_cluster_view (Some ''a''))) = [''a'']"
proof -
  let ?v = "demo_cluster_view (Some ''a'')"
  have P: "Promote ''b'' \<in> set (fd_actions (evaluate ?v))" by code_simp
  have "distinct (map sv_sid (cv_servers ?v))" by (simp add: demo_view_defs)
  with evaluate_promotion [of ?v "''b''"] P show ?thesis by (auto simp: demo_view_defs)
qed

lemma unset_primary_is_demoted_witness:
  "Demote ''c'' \<in> set (fd_actions (evaluate (demo_cluster_view None)))"
  using unset_primary_is_demoted [of "demo_cluster_view None"] by (simp add: demo_view_defs)

end
