(* ===== verification/Rust_Json.thy ===== *)
theory Rust_Json
  imports Rust_Result
begin

text \<open>
  What the sources use of \<^verbatim>\<open>serde_json\<close>: the library is a parameter, a record of the operations on
  an arbitrary type of values.
\<close>

record 'j json_api =
  j_from_str :: "string \<Rightarrow> 'j option"
  j_to_string :: "'j \<Rightarrow> string"
  j_get :: "'j \<Rightarrow> string \<Rightarrow> 'j option"
  j_as_str :: "'j \<Rightarrow> string option"
  j_as_bool :: "'j \<Rightarrow> bool option"
  j_as_u64 :: "'j \<Rightarrow> nat option"
  j_as_array :: "'j \<Rightarrow> 'j list option"
  j_set :: "'j \<Rightarrow> string \<Rightarrow> 'j \<Rightarrow> 'j"
  j_of_str :: "string \<Rightarrow> 'j"
  j_of_u64 :: "nat \<Rightarrow> 'j"
  j_object :: "(string \<times> 'j) list \<Rightarrow> 'j"

definition data_str :: "'j json_api \<Rightarrow> 'j \<Rightarrow> string \<Rightarrow> string option" where
  "data_str J v key = Option.bind (j_get J v key) (j_as_str J)"

text \<open>
  A small instance for evaluation: values are strings and objects, printed by their text alone.
\<close>

datatype demo_value = DStr string | DObj "(string \<times> demo_value) list"

fun demo_get :: "demo_value \<Rightarrow> string \<Rightarrow> demo_value option" where
  "demo_get (DObj m) k = map_of m k"
| "demo_get (DStr _) k = None"

fun demo_as_str :: "demo_value \<Rightarrow> string option" where
  "demo_as_str (DStr s) = Some s"
| "demo_as_str (DObj _) = None"

fun demo_set :: "demo_value \<Rightarrow> string \<Rightarrow> demo_value \<Rightarrow> demo_value" where
  "demo_set (DObj m) k v = DObj ((k, v) # m)"
| "demo_set (DStr s) k v = DStr s"

definition demo_json :: "demo_value json_api" where
  "demo_json = \<lparr>j_from_str = (\<lambda>s. Some (DStr s)), j_to_string = (\<lambda>_. []), j_get = demo_get,
     j_as_str = demo_as_str, j_as_bool = (\<lambda>_. None), j_as_u64 = (\<lambda>_. None), j_as_array = (\<lambda>_. None),
     j_set = demo_set, j_of_str = DStr, j_of_u64 = (\<lambda>n. DStr (show_nat n)), j_object = DObj\<rparr>"

lemma demo_json_simps [simp]:
  "j_get demo_json = demo_get" "j_as_str demo_json = demo_as_str" "j_of_str demo_json = DStr"
  "j_object demo_json = DObj"
  by (simp_all add: demo_json_def)

end
