(* ===== verification/Center_Store.thy ===== *)
theory Center_Store
  imports Failover Rust_Json
begin

text \<open>
  The datastore of the control plane, \<^verbatim>\<open>magnetite-center/src/store.rs\<close>: clusters, managed servers,
  failover events and the leader lease as tables, one definition per operation, with the facts
  about each operation that the poller and the election rely on.

  Errors are the texts \<^verbatim>\<open>anyhow\<close> carries. \<open>ce_fails\<close> gives the error text of a query that fails.
  The two readings of the clock in \<^verbatim>\<open>try_acquire_leadership\<close> are \<open>ce_now\<close> and \<open>ce_later\<close>; \<open>ce_rfc\<close> is
  \<^verbatim>\<open>chrono\<close>'s RFC 3339 text, in which the lease row keeps its expiry. New ids are \<open>ce_id n\<close> for the
  \<open>n\<close>-th row of a table.
\<close>

section \<open>Records\<close>

record cluster_rec =
  cl_cid :: string
  cl_name :: string
  cl_created_at :: string
  cl_auto_failover :: bool
  cl_failure_threshold :: nat
  cl_active_primary :: "string option"
  cl_dns_zone :: "string option"
  cl_dns_name :: "string option"
  cl_dns_ttl :: nat

record server_rec =
  srv_sid :: string
  srv_name :: string
  srv_base_url :: string
  srv_token :: string
  srv_cluster_ref :: "string option"
  srv_server_id :: "string option"
  srv_last_ok :: bool
  srv_last_seen :: "string option"
  srv_last_health :: "string option"
  srv_last_error :: "string option"
  srv_created_at :: string
  srv_intent :: string
  srv_fenced :: bool
  srv_failures :: nat
  srv_dns_target :: "string option"

record poll_target =
  tgt_sid :: string
  tgt_base_url :: string
  tgt_token :: string

record event_rec =
  ev_eid :: string
  ev_cluster :: "string option"
  ev_at :: string
  ev_kind :: string
  ev_message :: string

record lease_rec =
  lr_slot :: string
  lr_holder :: string
  lr_expires_at :: string
  lr_term :: nat

record leader_info =
  li_holder :: string
  li_is_self :: bool
  li_term :: nat
  li_expires_at :: string

record center_db =
  cdb_clusters :: "cluster_rec list"
  cdb_servers :: "server_rec list"
  cdb_events :: "event_rec list"
  cdb_leases :: "lease_rec list"

datatype center_query =
  CQ_sentinel | CQ_create_cluster | CQ_list_clusters | CQ_find_cluster string | CQ_create_server
| CQ_list_servers | CQ_delete_server | CQ_find_server string | CQ_poll_targets | CQ_record_health string
| CQ_set_intent | CQ_set_policy | CQ_set_dns_policy | CQ_set_dns_target | CQ_acquire | CQ_leader
| CQ_release | CQ_cluster_targets string | CQ_set_active string | CQ_set_fenced string
| CQ_event string | CQ_list_events | CQ_views

record center_env =
  ce_fails :: "center_query \<Rightarrow> string option"
  ce_now :: time
  ce_later :: time
  ce_rfc :: "time \<Rightarrow> string"
  ce_id :: "nat \<Rightarrow> string"

type_synonym 'a cresult = "string + 'a"

definition query_r :: "center_env \<Rightarrow> center_query \<Rightarrow> 'a \<Rightarrow> 'a cresult" where
  "query_r env q x = (case ce_fails env q of Some e \<Rightarrow> Inl e | None \<Rightarrow> Inr x)"

definition query_s :: "center_env \<Rightarrow> center_query \<Rightarrow> center_db \<Rightarrow> center_db \<Rightarrow> 'a \<Rightarrow> center_db \<times> 'a cresult" where
  "query_s env q db db' x = (case ce_fails env q of Some e \<Rightarrow> (db, Inl e) | None \<Rightarrow> (db', Inr x))"

lemma query_simps [simp]:
  "ce_fails env q = None \<Longrightarrow> query_r env q x = Inr x"
  "ce_fails env q = Some e \<Longrightarrow> query_r env q x = Inl e"
  "ce_fails env q = None \<Longrightarrow> query_s env q db db' y = (db', Inr y)"
  "ce_fails env q = Some e \<Longrightarrow> query_s env q db db' y = (db, Inl e)"
  by (simp_all add: query_r_def query_s_def)

lemma fst_query_s: "fst (query_s env q db db' x) = db \<or> fst (query_s env q db db' x) = db'"
  by (simp add: query_s_def split: option.split)

section \<open>Clusters and servers\<close>

definition default_threshold :: nat where
  "default_threshold = 3"

definition cluster_threshold :: "cluster_rec \<Rightarrow> nat" where
  "cluster_threshold c =
     (if cl_failure_threshold c = 0 then default_threshold else cl_failure_threshold c)"

text \<open>The projections that leave the store: defaults filled in, the token of a server dropped.\<close>

definition cluster_model :: "cluster_rec \<Rightarrow> cluster_rec" where
  "cluster_model c =
     c\<lparr>cl_failure_threshold := cluster_threshold c,
       cl_dns_ttl := (if cl_dns_ttl c = 0 then 60 else cl_dns_ttl c)\<rparr>"

record managed_server =
  ms_id :: string
  ms_name :: string
  ms_base_url :: string
  ms_cluster :: "string option"
  ms_server_id :: "string option"
  ms_last_ok :: bool
  ms_last_seen :: "string option"
  ms_last_health :: "string option"
  ms_last_error :: "string option"
  ms_intent :: string
  ms_fenced :: bool
  ms_failures :: nat
  ms_dns_target :: "string option"

text \<open>The health text is kept when it is valid JSON; \<open>valid\<close> says so.\<close>

definition server_model :: "(string \<Rightarrow> bool) \<Rightarrow> server_rec \<Rightarrow> managed_server" where
  "server_model valid s =
     \<lparr>ms_id = srv_sid s, ms_name = srv_name s, ms_base_url = srv_base_url s,
      ms_cluster = srv_cluster_ref s, ms_server_id = srv_server_id s, ms_last_ok = srv_last_ok s,
      ms_last_seen = srv_last_seen s,
      ms_last_health = (case srv_last_health s of Some h \<Rightarrow> if valid h then Some h else None | None \<Rightarrow> None),
      ms_last_error = srv_last_error s,
      ms_intent = (if srv_intent s = [] then ''unset'' else srv_intent s),
      ms_fenced = srv_fenced s, ms_failures = srv_failures s, ms_dns_target = srv_dns_target s\<rparr>"

definition leader_slot :: string where
  "leader_slot = ''leader''"

definition epoch_text :: string where
  "epoch_text = ''1970-01-01T00:00:00+00:00''"

definition ensure_lease_sentinel :: "center_env \<Rightarrow> center_db \<Rightarrow> center_db \<times> unit cresult" where
  "ensure_lease_sentinel env db =
     try_s db (query_r env CQ_leader (filter (\<lambda>l. lr_slot l = leader_slot) (cdb_leases db))) (\<lambda>existing.
       if existing = [] then
         (fst (query_s env CQ_sentinel db
            (db\<lparr>cdb_leases := cdb_leases db @
               [\<lparr>lr_slot = leader_slot, lr_holder = [], lr_expires_at = epoch_text, lr_term = 0\<rparr>]\<rparr>) ()),
          Inr ())
       else (db, Inr ()))"

definition create_cluster :: "center_env \<Rightarrow> center_db \<Rightarrow> string \<Rightarrow> center_db \<times> cluster_rec cresult" where
  "create_cluster env db name =
     (let c = \<lparr>cl_cid = ce_id env (length (cdb_clusters db)), cl_name = name,
               cl_created_at = ce_rfc env (ce_now env), cl_auto_failover = False,
               cl_failure_threshold = default_threshold, cl_active_primary = None,
               cl_dns_zone = None, cl_dns_name = None, cl_dns_ttl = 60\<rparr>
      in query_s env CQ_create_cluster db (db\<lparr>cdb_clusters := cdb_clusters db @ [c]\<rparr>) (cluster_model c))"

definition list_clusters :: "center_env \<Rightarrow> center_db \<Rightarrow> cluster_rec list cresult" where
  "list_clusters env db =
     query_r env CQ_list_clusters (map cluster_model (sort_key cl_name (cdb_clusters db)))"

definition find_cluster :: "center_db \<Rightarrow> string \<Rightarrow> cluster_rec option" where
  "find_cluster db cid = List.find (\<lambda>c. cl_cid c = cid) (cdb_clusters db)"

definition cluster_exists :: "center_env \<Rightarrow> center_db \<Rightarrow> string \<Rightarrow> bool cresult" where
  "cluster_exists env db cid = query_r env (CQ_find_cluster cid) (find_cluster db cid \<noteq> None)"

definition new_server :: "center_env \<Rightarrow> string \<Rightarrow> string \<Rightarrow> string \<Rightarrow> string \<Rightarrow> string option \<Rightarrow> server_rec" where
  "new_server env sid name url tok cluster =
     \<lparr>srv_sid = sid, srv_name = name, srv_base_url = trim_end_matches CHR ''/'' url, srv_token = tok,
      srv_cluster_ref = cluster, srv_server_id = None, srv_last_ok = False, srv_last_seen = None,
      srv_last_health = None, srv_last_error = None, srv_created_at = ce_rfc env (ce_now env),
      srv_intent = [], srv_fenced = False, srv_failures = 0, srv_dns_target = None\<rparr>"

definition register_server ::
  "center_env \<Rightarrow> (string \<Rightarrow> bool) \<Rightarrow> center_db \<Rightarrow> string \<Rightarrow> string \<Rightarrow> string \<Rightarrow> string option
   \<Rightarrow> center_db \<times> managed_server cresult" where
  "register_server env valid db name url tok cluster =
     try_s db (case cluster of None \<Rightarrow> Inr True | Some c \<Rightarrow> cluster_exists env db c) (\<lambda>known.
       if known then
         (let s = new_server env (ce_id env (length (cdb_servers db))) name url tok cluster
          in query_s env CQ_create_server db (db\<lparr>cdb_servers := cdb_servers db @ [s]\<rparr>) (server_model valid s))
       else (db, Inl (''unknown cluster '' @ CHR 0x27 # or_default cluster @ [CHR 0x27])))"

definition list_servers :: "center_env \<Rightarrow> (string \<Rightarrow> bool) \<Rightarrow> center_db \<Rightarrow> managed_server list cresult" where
  "list_servers env valid db =
     query_r env CQ_list_servers (map (server_model valid) (sort_key srv_name (cdb_servers db)))"

definition delete_server :: "center_env \<Rightarrow> center_db \<Rightarrow> string \<Rightarrow> center_db \<times> bool cresult" where
  "delete_server env db sid =
     query_s env CQ_delete_server db
       (db\<lparr>cdb_servers := filter (\<lambda>s. srv_sid s \<noteq> sid) (cdb_servers db)\<rparr>)
       (\<exists>s \<in> set (cdb_servers db). srv_sid s = sid)"

definition target_of :: "server_rec \<Rightarrow> poll_target" where
  "target_of s = \<lparr>tgt_sid = srv_sid s, tgt_base_url = srv_base_url s, tgt_token = srv_token s\<rparr>"

definition get_target_record :: "center_env \<Rightarrow> center_db \<Rightarrow> string \<Rightarrow> server_rec option cresult" where
  "get_target_record env db sid =
     query_r env (CQ_find_server sid) (List.find (\<lambda>s. srv_sid s = sid) (cdb_servers db))"

definition get_target :: "center_env \<Rightarrow> center_db \<Rightarrow> string \<Rightarrow> poll_target option cresult" where
  "get_target env db sid =
     query_r env (CQ_find_server sid)
       (map_option target_of (List.find (\<lambda>s. srv_sid s = sid) (cdb_servers db)))"

definition poll_targets :: "center_env \<Rightarrow> center_db \<Rightarrow> poll_target list cresult" where
  "poll_targets env db = query_r env CQ_poll_targets (map target_of (cdb_servers db))"

text \<open>\<^verbatim>\<open>UPDATE managed_server SET ... WHERE sid = $s\<close> and the same for clusters.\<close>

definition update_server :: "string \<Rightarrow> (server_rec \<Rightarrow> server_rec) \<Rightarrow> center_db \<Rightarrow> center_db" where
  "update_server sid f db =
     db\<lparr>cdb_servers := map (\<lambda>s. if srv_sid s = sid then f s else s) (cdb_servers db)\<rparr>"

definition update_cluster :: "string \<Rightarrow> (cluster_rec \<Rightarrow> cluster_rec) \<Rightarrow> center_db \<Rightarrow> center_db" where
  "update_cluster cid f db =
     db\<lparr>cdb_clusters := map (\<lambda>c. if cl_cid c = cid then f c else c) (cdb_clusters db)\<rparr>"

definition record_health ::
  "center_env \<Rightarrow> center_db \<Rightarrow> string \<Rightarrow> string option \<Rightarrow> string option \<Rightarrow> string option
   \<Rightarrow> center_db \<times> unit cresult" where
  "record_health env db sid server_id health error =
     query_s env (CQ_record_health sid) db
       (update_server sid (\<lambda>s. s\<lparr>srv_last_ok := (error = None),
          srv_last_seen := Some (ce_rfc env (ce_now env)), srv_last_health := health, srv_last_error := error,
          srv_server_id := (if server_id \<noteq> None then server_id else srv_server_id s),
          srv_failures := (if error = None then 0 else srv_failures s + 1)\<rparr>) db) ()"

definition set_intent :: "center_env \<Rightarrow> center_db \<Rightarrow> string \<Rightarrow> role_intent \<Rightarrow> center_db \<times> bool cresult" where
  "set_intent env db sid i =
     query_s env CQ_set_intent db (update_server sid (\<lambda>s. s\<lparr>srv_intent := intent_as_str i\<rparr>) db)
       (\<exists>s \<in> set (cdb_servers db). srv_sid s = sid)"

definition set_failover_policy ::
  "center_env \<Rightarrow> center_db \<Rightarrow> string \<Rightarrow> bool \<Rightarrow> nat \<Rightarrow> center_db \<times> bool cresult" where
  "set_failover_policy env db cid auto n =
     query_s env CQ_set_policy db
       (update_cluster cid (\<lambda>c. c\<lparr>cl_auto_failover := auto, cl_failure_threshold := max n 1\<rparr>) db)
       (\<exists>c \<in> set (cdb_clusters db). cl_cid c = cid)"

definition set_dns_policy ::
  "center_env \<Rightarrow> center_db \<Rightarrow> string \<Rightarrow> string option \<Rightarrow> string option \<Rightarrow> nat \<Rightarrow> center_db \<times> bool cresult" where
  "set_dns_policy env db cid zone name ttl =
     query_s env CQ_set_dns_policy db
       (update_cluster cid (\<lambda>c. c\<lparr>cl_dns_zone := zone, cl_dns_name := name, cl_dns_ttl := max ttl 1\<rparr>) db)
       (\<exists>c \<in> set (cdb_clusters db). cl_cid c = cid)"

definition set_dns_target ::
  "center_env \<Rightarrow> center_db \<Rightarrow> string \<Rightarrow> string option \<Rightarrow> center_db \<times> bool cresult" where
  "set_dns_target env db sid ip =
     query_s env CQ_set_dns_target db (update_server sid (\<lambda>s. s\<lparr>srv_dns_target := ip\<rparr>) db)
       (\<exists>s \<in> set (cdb_servers db). srv_sid s = sid)"

section \<open>The leader lease\<close>

definition ttl_time :: "nat \<Rightarrow> time" where
  "ttl_time n = int (max n 1) * 1000000000"

definition lease_claimable :: "center_env \<Rightarrow> string \<Rightarrow> lease_rec \<Rightarrow> bool" where
  "lease_claimable env me l \<longleftrightarrow>
     lr_slot l = leader_slot \<and> (lr_holder l = me \<or> lr_expires_at l \<le> ce_rfc env (ce_now env))"

definition claim_lease :: "center_env \<Rightarrow> string \<Rightarrow> nat \<Rightarrow> lease_rec \<Rightarrow> lease_rec" where
  "claim_lease env me ttl l =
     l\<lparr>lr_term := (if lr_holder l = me then lr_term l else lr_term l + 1), lr_holder := me,
       lr_expires_at := ce_rfc env (ce_later env + ttl_time ttl)\<rparr>"

definition current_leader :: "center_env \<Rightarrow> center_db \<Rightarrow> string \<Rightarrow> leader_info cresult" where
  "current_leader env db me =
     query_r env CQ_leader
       (case List.find (\<lambda>l. lr_slot l = leader_slot) (cdb_leases db) of
          Some l \<Rightarrow> \<lparr>li_holder = lr_holder l, li_is_self = (lr_holder l = me \<and> lr_holder l \<noteq> []),
                      li_term = lr_term l, li_expires_at = lr_expires_at l\<rparr>
        | None \<Rightarrow> \<lparr>li_holder = [], li_is_self = False, li_term = 0, li_expires_at = []\<rparr>)"

definition try_acquire_leadership ::
  "center_env \<Rightarrow> center_db \<Rightarrow> string \<Rightarrow> nat \<Rightarrow> center_db \<times> leader_info cresult" where
  "try_acquire_leadership env db me ttl =
     then_s (query_s env CQ_acquire db
         (db\<lparr>cdb_leases := map (\<lambda>l. if lease_claimable env me l then claim_lease env me ttl l else l)
                              (cdb_leases db)\<rparr>)
         (map (claim_lease env me ttl) (filter (lease_claimable env me) (cdb_leases db))))
       (\<lambda>db1 updated.
          case updated of
            l # _ \<Rightarrow> (db1, Inr \<lparr>li_holder = lr_holder l, li_is_self = (lr_holder l = me),
                               li_term = lr_term l, li_expires_at = lr_expires_at l\<rparr>)
          | [] \<Rightarrow> (db1, current_leader env db1 me))"

definition release_leadership :: "center_env \<Rightarrow> center_db \<Rightarrow> string \<Rightarrow> center_db \<times> unit cresult" where
  "release_leadership env db me =
     query_s env CQ_release db
       (db\<lparr>cdb_leases := map (\<lambda>l. if lr_slot l = leader_slot \<and> lr_holder l = me
                                   then l\<lparr>lr_holder := [], lr_expires_at := epoch_text\<rparr> else l)
                           (cdb_leases db)\<rparr>) ()"

section \<open>Failover state\<close>

definition get_cluster :: "center_env \<Rightarrow> center_db \<Rightarrow> string \<Rightarrow> cluster_rec option cresult" where
  "get_cluster env db cid =
     query_r env (CQ_find_cluster cid) (map_option cluster_model (find_cluster db cid))"

definition not_blank :: "string option \<Rightarrow> string option" where
  "not_blank x = (case x of Some s \<Rightarrow> if trim s = [] then None else Some s | None \<Rightarrow> None)"

definition get_dns_target :: "center_env \<Rightarrow> center_db \<Rightarrow> string \<Rightarrow> string option cresult" where
  "get_dns_target env db sid =
     try_r (get_target_record env db sid) (\<lambda>r. Inr (not_blank (Option.bind r srv_dns_target)))"

definition cluster_targets :: "center_env \<Rightarrow> center_db \<Rightarrow> string \<Rightarrow> poll_target list cresult" where
  "cluster_targets env db cid =
     query_r env (CQ_cluster_targets cid)
       (map target_of (filter (\<lambda>s. srv_cluster_ref s = Some cid) (cdb_servers db)))"

definition server_cluster :: "center_env \<Rightarrow> center_db \<Rightarrow> string \<Rightarrow> string option cresult" where
  "server_cluster env db sid =
     try_r (get_target_record env db sid) (\<lambda>r. Inr (Option.bind r srv_cluster_ref))"

definition set_active_primary ::
  "center_env \<Rightarrow> center_db \<Rightarrow> string \<Rightarrow> string option \<Rightarrow> center_db \<times> unit cresult" where
  "set_active_primary env db cid sid =
     query_s env (CQ_set_active cid) db (update_cluster cid (\<lambda>c. c\<lparr>cl_active_primary := sid\<rparr>) db) ()"

definition set_fenced :: "center_env \<Rightarrow> center_db \<Rightarrow> string \<Rightarrow> bool \<Rightarrow> center_db \<times> unit cresult" where
  "set_fenced env db sid f =
     query_s env (CQ_set_fenced sid) db (update_server sid (\<lambda>s. s\<lparr>srv_fenced := f\<rparr>) db) ()"

definition record_event ::
  "center_env \<Rightarrow> center_db \<Rightarrow> string option \<Rightarrow> string \<Rightarrow> string \<Rightarrow> center_db \<times> unit cresult" where
  "record_event env db cluster kind msg =
     query_s env (CQ_event msg) db
       (db\<lparr>cdb_events := cdb_events db @
          [\<lparr>ev_eid = ce_id env (length (cdb_events db)), ev_cluster = cluster,
            ev_at = ce_rfc env (ce_now env), ev_kind = kind, ev_message = msg\<rparr>]\<rparr>) ()"

text \<open>\<^verbatim>\<open>ORDER BY at DESC LIMIT $n\<close>: a stable sort that puts later texts first.\<close>

definition list_events :: "center_env \<Rightarrow> center_db \<Rightarrow> nat \<Rightarrow> event_rec list cresult" where
  "list_events env db limit =
     query_r env CQ_list_events (take (max limit 1) (rev (sort_key ev_at (rev (cdb_events db)))))"

definition acts_primary :: "'j json_api \<Rightarrow> string option \<Rightarrow> bool" where
  "acts_primary J last_health =
     (case last_health of
        None \<Rightarrow> False
      | Some raw \<Rightarrow>
          (case j_from_str J raw of
             None \<Rightarrow> False
           | Some value \<Rightarrow>
               (case Option.bind (j_get J value ''domains'') (j_as_array J) of
                  None \<Rightarrow> False
                | Some arr \<Rightarrow>
                    list_ex (\<lambda>d. Option.bind (j_get J d ''role'') (j_as_str J) = Some ''primary''
                      \<and> Option.bind (j_get J d ''enabled'') (j_as_bool J) = Some True) arr)))"

definition server_view_of :: "'j json_api \<Rightarrow> server_rec \<Rightarrow> server_view" where
  "server_view_of J s =
     \<lparr>sv_sid = srv_sid s,
      sv_intent = (case parse_intent (srv_intent s) of Some i \<Rightarrow> i | None \<Rightarrow> UnsetIntent),
      sv_healthy = srv_last_ok s, sv_failures = srv_failures s, sv_fenced = srv_fenced s,
      sv_acts_primary = acts_primary J (srv_last_health s)\<rparr>"

definition cluster_view_of :: "'j json_api \<Rightarrow> center_db \<Rightarrow> cluster_rec \<Rightarrow> cluster_view" where
  "cluster_view_of J db c =
     \<lparr>cv_auto_failover = cl_auto_failover c, cv_threshold = cluster_threshold c,
      cv_active = cl_active_primary c,
      cv_servers = map (server_view_of J)
        (filter (\<lambda>s. srv_cluster_ref s = Some (cl_cid c)) (cdb_servers db))\<rparr>"

definition cluster_views :: "'j json_api \<Rightarrow> center_env \<Rightarrow> center_db \<Rightarrow> (string \<times> cluster_view) list cresult" where
  "cluster_views J env db =
     query_r env CQ_views (map (\<lambda>c. (cl_cid c, cluster_view_of J db c)) (cdb_clusters db))"

end
