(* ===== verification/Center_Poll.thy ===== *)
theory Center_Poll
  imports Center_Store
begin

text \<open>
  The loops of the control plane: health polling, failover and DNS steering
  (\<^verbatim>\<open>magnetite-center/src/poll.rs\<close>) and the election tick (\<^verbatim>\<open>leader.rs\<close>).

  A world is the store with the commands sent so far. The network is a parameter: \<open>n_get k\<close> is
  the answer to the polls of the \<open>k\<close>-th target of a pass, \<open>n_post k\<close> the answer to the \<open>k\<close>-th command
  ever sent. A pass runs in one environment record: each of its queries fails or not on its own.
\<close>

section \<open>Polling\<close>

datatype post_body =
  EmptyBody | DomainBody string | DnsBody string string string nat

record center_world =
  cw_db :: center_db
  cw_sent :: "(string \<times> string \<times> post_body) list"

record 'j center_net =
  n_get :: "nat \<Rightarrow> string \<Rightarrow> string \<Rightarrow> string + 'j"
  n_post :: "nat \<Rightarrow> string \<Rightarrow> string \<Rightarrow> post_body \<Rightarrow> string + nat \<times> string"

definition json_server_id :: "'j json_api \<Rightarrow> 'j \<Rightarrow> string option" where
  "json_server_id J v = Option.bind (j_get J v ''server_id'') (j_as_str J)"

definition fetch_identity_id :: "'j json_api \<Rightarrow> 'j center_net \<Rightarrow> nat \<Rightarrow> string \<Rightarrow> string \<Rightarrow> string option" where
  "fetch_identity_id J net k url tok =
     Option.bind (ok_opt (n_get net k (url @ ''/mgmt/identity'') tok)) (json_server_id J)"

text \<open>What a poll of one target reports: the id, the health text, the error.\<close>

definition poll_result ::
  "'j json_api \<Rightarrow> 'j center_net \<Rightarrow> nat \<Rightarrow> poll_target \<Rightarrow> string option \<times> string option \<times> string option" where
  "poll_result J net k t =
     (case n_get net k (tgt_base_url t @ ''/mgmt/health'') (tgt_token t) of
        Inr health \<Rightarrow>
          ((case json_server_id J health of
              Some s \<Rightarrow> Some s
            | None \<Rightarrow> fetch_identity_id J net k (tgt_base_url t) (tgt_token t)),
           Some (j_to_string J health), None)
      | Inl e \<Rightarrow> (None, None, Some e))"

fun poll_each ::
  "'j json_api \<Rightarrow> 'j center_net \<Rightarrow> center_env \<Rightarrow> nat \<Rightarrow> poll_target list \<Rightarrow> center_db \<Rightarrow> center_db" where
  "poll_each J net env k [] db = db"
| "poll_each J net env k (t # ts) db =
     (case poll_result J net k t of (server_id, health, error) \<Rightarrow>
        poll_each J net env (Suc k) ts (fst (record_health env db (tgt_sid t) server_id health error)))"

definition poll_once :: "'j json_api \<Rightarrow> 'j center_net \<Rightarrow> center_env \<Rightarrow> center_db \<Rightarrow> center_db" where
  "poll_once J net env db =
     (case poll_targets env db of Inl _ \<Rightarrow> db | Inr ts \<Rightarrow> poll_each J net env 0 ts db)"

section \<open>Commands\<close>

definition post_command ::
  "'j center_net \<Rightarrow> center_world \<Rightarrow> string \<Rightarrow> string \<Rightarrow> post_body \<Rightarrow> center_world \<times> (string + nat \<times> string)" where
  "post_command net w url tok body =
     (w\<lparr>cw_sent := cw_sent w @ [(url, tok, body)]\<rparr>, n_post net (length (cw_sent w)) url tok body)"

definition is_2xx :: "nat \<Rightarrow> bool" where
  "is_2xx n \<longleftrightarrow> 200 \<le> n \<and> n < 300"

definition send_command ::
  "'j center_net \<Rightarrow> center_env \<Rightarrow> center_world \<Rightarrow> string \<Rightarrow> string \<Rightarrow> center_world \<times> unit cresult" where
  "send_command net env w sid cmd =
     (case get_target env (cw_db w) sid of
        Inl e \<Rightarrow> (w, Inl e)
      | Inr None \<Rightarrow> (w, Inl (''server '' @ sid @ '' not found''))
      | Inr (Some t) \<Rightarrow>
          (case post_command net w (tgt_base_url t @ ''/mgmt/'' @ cmd) (tgt_token t) EmptyBody of
             (w1, Inl e) \<Rightarrow> (w1, Inl e)
           | (w1, Inr (status, body)) \<Rightarrow>
               if is_2xx status then (w1, Inr ())
               else (w1, Inl (cmd @ '' returned '' @ show_nat status @ '': '' @ body))))"

definition log_failover :: "center_env \<Rightarrow> string option \<Rightarrow> string \<Rightarrow> string \<Rightarrow> center_world \<Rightarrow> center_world" where
  "log_failover env cid kind msg w = w\<lparr>cw_db := fst (record_event env (cw_db w) cid kind msg)\<rparr>"

fun steer_each ::
  "'j center_net \<Rightarrow> post_body \<Rightarrow> poll_target list \<Rightarrow> center_world \<Rightarrow> nat \<Rightarrow> center_world \<times> nat" where
  "steer_each net body [] w ok = (w, ok)"
| "steer_each net body (t # ts) w ok =
     (case post_command net w (tgt_base_url t @ ''/mgmt/dns'') (tgt_token t) body of
        (w1, Inl _) \<Rightarrow> steer_each net body ts w1 ok
      | (w1, Inr (status, _)) \<Rightarrow> steer_each net body ts w1 (if is_2xx status then Suc ok else ok))"

definition steer_dns :: "'j center_net \<Rightarrow> center_env \<Rightarrow> string \<Rightarrow> center_world \<Rightarrow> center_world" where
  "steer_dns net env cid w =
     (case get_cluster env (cw_db w) cid of
        Inr (Some c) \<Rightarrow>
          (case (not_blank (cl_dns_zone c), not_blank (cl_dns_name c), cl_active_primary c) of
             (Some zone, Some name, Some active) \<Rightarrow>
               (case get_dns_target env (cw_db w) active of
                  Inr (Some ip) \<Rightarrow>
                    (let ttl = cl_dns_ttl c;
                         targets = (case cluster_targets env (cw_db w) cid of Inr ts \<Rightarrow> ts | Inl _ \<Rightarrow> [])
                     in case steer_each net (DnsBody zone name ip ttl) targets w 0 of (w1, ok) \<Rightarrow>
                          log_failover env (Some cid) ''dns''
                            (''steered '' @ name @ '' (zone '' @ zone @ '') '' @ arrow_sign @ '' '' @ ip
                             @ '' (ttl '' @ show_nat ttl @ '') on '' @ show_nat ok @ ''/''
                             @ show_nat (length targets) @ '' node(s)'') w1)
                | _ \<Rightarrow>
                    log_failover env (Some cid) ''dns''
                      (''DNS steer skipped: active primary '' @ active @ '' has no dns_target set'') w)
           | _ \<Rightarrow> w)
      | _ \<Rightarrow> w)"

section \<open>The failover pass\<close>

fun action_sid :: "action \<Rightarrow> string" where
  "action_sid (Promote s) = s"
| "action_sid (Demote s) = s"

fun action_cmd :: "action \<Rightarrow> string" where
  "action_cmd (Promote _) = ''promote''"
| "action_cmd (Demote _) = ''demote''"

fun is_promote :: "action \<Rightarrow> bool" where
  "is_promote (Promote _) = True"
| "is_promote (Demote _) = False"

fun run_actions ::
  "'j center_net \<Rightarrow> center_env \<Rightarrow> string \<Rightarrow> action list \<Rightarrow> center_world \<Rightarrow> bool \<Rightarrow> center_world \<times> bool" where
  "run_actions net env cid [] w ok = (w, ok)"
| "run_actions net env cid (a # as) w ok =
     (case send_command net env w (action_sid a) (action_cmd a) of
        (w1, Inr _) \<Rightarrow> run_actions net env cid as w1 ok
      | (w1, Inl e) \<Rightarrow>
          run_actions net env cid as
            (log_failover env (Some cid) ''error''
               (action_cmd a @ '' '' @ action_sid a @ '' failed: '' @ e) w1)
            (ok \<and> \<not> is_promote a))"

definition fence_all :: "center_env \<Rightarrow> bool \<Rightarrow> string list \<Rightarrow> center_world \<Rightarrow> center_world" where
  "fence_all env f sids w = w\<lparr>cw_db := fold (\<lambda>sid db. fst (set_fenced env db sid f)) sids (cw_db w)\<rparr>"

definition persist_decision ::
  "'j center_net \<Rightarrow> center_env \<Rightarrow> string \<Rightarrow> failover_decision \<Rightarrow> center_world \<Rightarrow> center_world" where
  "persist_decision net env cid d w =
     (let w1 = (case fd_new_active d of
                  None \<Rightarrow> w
                | Some p \<Rightarrow>
                    steer_dns net env cid (w\<lparr>cw_db := fst (set_active_primary env (cw_db w) cid (Some p))\<rparr>))
      in fence_all env False (fd_unfence d) (fence_all env True (fd_fence d) w1))"

definition carry_out ::
  "'j center_net \<Rightarrow> center_env \<Rightarrow> string \<Rightarrow> failover_decision \<Rightarrow> center_world \<Rightarrow> center_world" where
  "carry_out net env cid d w =
     (if decision_is_empty d then w
      else
        (case run_actions net env cid (fd_actions d) w True of (w1, promote_ok) \<Rightarrow>
           fold (log_failover env (Some cid) ''failover'') (fd_log d)
             (if promote_ok then persist_decision net env cid d w1 else w1)))"

definition run_failover :: "'j json_api \<Rightarrow> 'j center_net \<Rightarrow> center_env \<Rightarrow> center_world \<Rightarrow> center_world" where
  "run_failover J net env w =
     (case cluster_views J env (cw_db w) of
        Inl _ \<Rightarrow> w
      | Inr views \<Rightarrow> fold (\<lambda>(cid, view). carry_out net env cid (evaluate view)) views w)"

text \<open>One turn of the poll loop, run only by the leader.\<close>

definition poll_tick :: "'j json_api \<Rightarrow> 'j center_net \<Rightarrow> center_env \<Rightarrow> bool \<Rightarrow> center_world \<Rightarrow> center_world" where
  "poll_tick J net env is_leader w =
     (if \<not> is_leader then w
      else run_failover J net env (w\<lparr>cw_db := poll_once J net env (cw_db w)\<rparr>))"

section \<open>The election tick\<close>

definition leader_tick :: "center_env \<Rightarrow> string \<Rightarrow> nat \<Rightarrow> center_db \<Rightarrow> center_db \<times> bool" where
  "leader_tick env me ttl db =
     (case try_acquire_leadership env db me ttl of
        (db1, Inr info) \<Rightarrow> (db1, li_is_self info)
      | (db1, Inl _) \<Rightarrow> (db1, False))"

end
