(* ===== verification/Center_Leader.thy ===== *)
theory Center_Leader
  imports Center_Poll
begin

text \<open>
  Leader election of the control plane: several centers tick (\<^verbatim>\<open>leader.rs\<close>) on one shared lease row.
  The step relation interleaves their ticks, the passing of time, crashes and whatever else the
  store does outside the lease table. The lease is an interface of its own, the locale
  \<open>lease_register\<close>: mutual exclusion is proved from its laws and the store's operations provide
  them.

  \<open>el_deadline\<close> is a ghost: the expiry a center wrote when it last won the lease. A tick reads
  clocks that are at most the present.
\<close>

section \<open>The system\<close>

record election =
  el_db :: center_db
  el_flag :: "string \<Rightarrow> bool"
  el_deadline :: "string \<Rightarrow> time"
  el_clock :: time

definition election_init :: "center_env \<Rightarrow> time \<Rightarrow> election" where
  "election_init env t =
     \<lparr>el_db = fst (ensure_lease_sentinel env
        \<lparr>cdb_clusters = [], cdb_servers = [], cdb_events = [], cdb_leases = []\<rparr>),
      el_flag = (\<lambda>_. False), el_deadline = (\<lambda>_. 0), el_clock = t\<rparr>"

inductive election_step :: "(time \<Rightarrow> string) \<Rightarrow> nat \<Rightarrow> election \<Rightarrow> election \<Rightarrow> bool"
  for rfc :: "time \<Rightarrow> string" and ttl :: nat where
  tick: "\<lbrakk>ce_rfc env = rfc; 0 \<le> ce_now env; ce_now env \<le> ce_later env; ce_later env \<le> el_clock s;
      me \<noteq> []; leader_tick env me ttl (el_db s) = (db', b)\<rbrakk>
    \<Longrightarrow> election_step rfc ttl s (s\<lparr>el_db := db', el_flag := (el_flag s)(me := b),
          el_deadline := (if b then (el_deadline s)(me := ce_later env + ttl_time ttl) else el_deadline s)\<rparr>)"
| wait: "el_clock s \<le> t \<Longrightarrow> election_step rfc ttl s (s\<lparr>el_clock := t\<rparr>)"
| crash: "election_step rfc ttl s (s\<lparr>el_flag := (el_flag s)(me := False)\<rparr>)"
| other: "cdb_leases db' = cdb_leases (el_db s) \<Longrightarrow> election_step rfc ttl s (s\<lparr>el_db := db'\<rparr>)"

text \<open>A clean shutdown as \<^verbatim>\<open>main.rs\<close> does it: the lease is released while the loops still run.\<close>

definition shutdown_center :: "center_env \<Rightarrow> string \<Rightarrow> election \<Rightarrow> election" where
  "shutdown_center env me s = s\<lparr>el_db := fst (release_leadership env (el_db s) me)\<rparr>"

section \<open>The lease as an interface\<close>

definition lease_exclusive ::
  "('s \<Rightarrow> string) \<Rightarrow> ('s \<Rightarrow> string) \<Rightarrow> (time \<Rightarrow> string) \<Rightarrow> time \<Rightarrow> 's \<Rightarrow> (string \<Rightarrow> bool) \<Rightarrow> (string \<Rightarrow> time) \<Rightarrow> bool"
  where
  "lease_exclusive holder expiry stamp now s flag deadline \<longleftrightarrow>
     (\<forall>c. flag c \<and> now < deadline c \<longrightarrow> holder s = c \<and> expiry s = stamp (deadline c) \<and> 0 \<le> deadline c)"

definition stamp_faithful :: "(time \<Rightarrow> string) \<Rightarrow> time \<Rightarrow> bool" where
  "stamp_faithful stamp T \<longleftrightarrow>
     (\<forall>a b. 0 \<le> a \<and> a < T \<and> 0 \<le> b \<and> b < T \<and> stamp a \<le> stamp b \<longrightarrow> a \<le> b)"

locale lease_register =
  fixes inv :: "'s \<Rightarrow> bool"
    and holder :: "'s \<Rightarrow> string"
    and expiry :: "'s \<Rightarrow> string"
    and acquire :: "'e \<Rightarrow> string \<Rightarrow> nat \<Rightarrow> 's \<Rightarrow> 's \<times> bool"
    and read_now :: "'e \<Rightarrow> time"
    and read_later :: "'e \<Rightarrow> time"
    and stamp :: "'e \<Rightarrow> time \<Rightarrow> string"
  assumes acquire_inv: "inv s \<Longrightarrow> inv (fst (acquire e me ttl s))"
    and acquire_granted: "\<lbrakk>inv s; me \<noteq> []; acquire e me ttl s = (s', True)\<rbrakk> \<Longrightarrow>
      holder s' = me \<and> expiry s' = stamp e (read_later e + ttl_time ttl)"
    and acquire_when_free: "\<lbrakk>inv s; me \<noteq> []; acquire e me ttl s = (s', True)\<rbrakk> \<Longrightarrow>
      holder s = me \<or> expiry s \<le> stamp e (read_now e)"
    and acquire_refused: "\<lbrakk>inv s; me \<noteq> []; acquire e me ttl s = (s', False)\<rbrakk> \<Longrightarrow>
      holder s' = holder s \<and> expiry s' = expiry s"
begin

lemma acquire_keeps_exclusive:
  assumes "inv s" and "me \<noteq> []" and "acquire e me ttl s = (s', b)"
    and "lease_exclusive holder expiry (stamp e) now s flag dl"
    and "stamp_faithful (stamp e) T" and "0 \<le> read_now e" and "read_now e \<le> read_later e"
    and "read_later e \<le> now" and "now < T" and "\<And>c. flag c \<Longrightarrow> dl c < T"
  shows "lease_exclusive holder expiry (stamp e) now s' (flag(me := b))
           (if b then dl(me := read_later e + ttl_time ttl) else dl)"
proof (cases b)
  case True
  then have g: "acquire e me ttl s = (s', True)" using assms(3) by simp
  note granted = acquire_granted [OF assms(1,2) g]
  have "0 \<le> read_later e + ttl_time ttl" using assms(6,7) by (simp add: ttl_time_def)
  moreover have "c = me" if c: "flag c" "now < dl c" for c
  proof (rule ccontr)
    assume "c \<noteq> me"
    moreover have h: "holder s = c" "expiry s = stamp e (dl c)" "0 \<le> dl c"
      using assms(4) c by (simp_all add: lease_exclusive_def)
    ultimately have "stamp e (dl c) \<le> stamp e (read_now e)"
      using acquire_when_free [OF assms(1,2) g] by simp
    then have "dl c \<le> read_now e"
      using assms(5-9) h(3) assms(10) [OF c(1)] by (simp add: stamp_faithful_def)
    with c(2) assms(7,8) show False by simp
  qed
  ultimately show ?thesis using granted True by (auto simp: lease_exclusive_def)
next
  case False
  then have "holder s' = holder s" "expiry s' = expiry s"
    using acquire_refused [OF assms(1,2)] assms(3) by simp_all
  with False assms(4) show ?thesis by (simp add: lease_exclusive_def)
qed

lemma exclusive_unique:
  "\<lbrakk>lease_exclusive holder expiry st now s flag dl; flag c; now < dl c; flag c'; now < dl c'\<rbrakk> \<Longrightarrow> c = c'"
  by (auto simp: lease_exclusive_def)

end

section \<open>The store provides it\<close>

definition single_lease :: "center_db \<Rightarrow> bool" where
  "single_lease db \<longleftrightarrow> (\<exists>l. cdb_leases db = [l] \<and> lr_slot l = leader_slot)"

definition lease_holder :: "center_db \<Rightarrow> string" where
  "lease_holder db = (case cdb_leases db of l # _ \<Rightarrow> lr_holder l | [] \<Rightarrow> [])"

definition lease_expiry_text :: "center_db \<Rightarrow> string" where
  "lease_expiry_text db = (case cdb_leases db of l # _ \<Rightarrow> lr_expires_at l | [] \<Rightarrow> [])"

lemma leader_tick_cases:
  assumes "cdb_leases db = [l]" and "lr_slot l = leader_slot" and "me \<noteq> []"
    and "leader_tick env me ttl db = (db', b)"
  obtains "b" and "lease_claimable env me l" and "db' = db\<lparr>cdb_leases := [claim_lease env me ttl l]\<rparr>"
  | "\<not> b" and "db' = db"
proof (cases "ce_fails env CQ_acquire")
  case (Some e)
  with assms show thesis
    by (intro that(2)) (simp_all add: leader_tick_def try_acquire_leadership_def)
next
  case None
  show thesis
  proof (cases "lease_claimable env me l")
    case True
    with None assms have "b" "db' = db\<lparr>cdb_leases := [claim_lease env me ttl l]\<rparr>"
      by (simp_all add: leader_tick_def try_acquire_leadership_def) (simp_all add: claim_lease_def)
    with True that(1) show thesis by simp
  next
    case False
    then have "lr_holder l \<noteq> me" using assms(2) by (auto simp: lease_claimable_def)
    with False None assms have "\<not> b \<and> db' = db\<lparr>cdb_leases := [l]\<rparr>"
      by (cases "ce_fails env CQ_leader")
        (auto simp: leader_tick_def try_acquire_leadership_def current_leader_def)
    with assms(1) have "\<not> b" "db' = db" by auto
    then show thesis by (rule that(2))
  qed
qed

lemma fst_leader_tick_leases:
  "map lr_slot (cdb_leases (fst (leader_tick env me ttl db))) = map lr_slot (cdb_leases db)"
  by (auto simp: leader_tick_def try_acquire_leadership_def query_s_def claim_lease_def current_leader_def
      split: option.splits list.splits sum.splits)

lemma single_lease_slots: "single_lease db \<longleftrightarrow> map lr_slot (cdb_leases db) = [leader_slot]"
  by (auto simp: single_lease_def)

interpretation center_lease: lease_register single_lease lease_holder lease_expiry_text leader_tick
  ce_now ce_later ce_rfc
proof (unfold_locales, goal_cases)
  case (1 s e me ttl)
  then show ?case by (simp add: single_lease_slots fst_leader_tick_leases)
next
  case (2 s me e ttl s')
  then obtain l where l: "cdb_leases s = [l]" "lr_slot l = leader_slot" by (auto simp: single_lease_def)
  show ?case
    by (rule leader_tick_cases [OF l 2(2,3)])
      (use l in \<open>auto simp: lease_holder_def lease_expiry_text_def claim_lease_def\<close>)
next
  case (3 s me e ttl s')
  then obtain l where l: "cdb_leases s = [l]" "lr_slot l = leader_slot" by (auto simp: single_lease_def)
  show ?case
    by (rule leader_tick_cases [OF l 3(2,3)])
      (use l in \<open>auto simp: lease_holder_def lease_expiry_text_def lease_claimable_def\<close>)
next
  case (4 s me e ttl s')
  then obtain l where l: "cdb_leases s = [l]" "lr_slot l = leader_slot" by (auto simp: single_lease_def)
  show ?case by (rule leader_tick_cases [OF l 4(2,3)]) auto
qed

section \<open>At most one leader\<close>

definition election_inv :: "(time \<Rightarrow> string) \<Rightarrow> nat \<Rightarrow> election \<Rightarrow> bool" where
  "election_inv rfc ttl s \<longleftrightarrow>
     single_lease (el_db s) \<and> (\<forall>c. el_flag s c \<longrightarrow> el_deadline s c \<le> el_clock s + ttl_time ttl) \<and>
     lease_exclusive lease_holder lease_expiry_text rfc (el_clock s) (el_db s) (el_flag s) (el_deadline s)"

lemma election_step_clock: "election_step rfc ttl s s' \<Longrightarrow> el_clock s \<le> el_clock s'"
  by (induction rule: election_step.induct) simp_all

lemma ttl_time_pos: "0 < ttl_time ttl"
  by (simp add: ttl_time_def)

lemma election_step_inv:
  assumes "election_step rfc ttl s s'" and "election_inv rfc ttl s" and "stamp_faithful rfc T"
    and "el_clock s' + ttl_time ttl < T"
  shows "election_inv rfc ttl s'"
  using assms(1)
proof cases
  case (tick env me db' b)
  have inv: "single_lease (el_db s)" using assms(2) by (simp add: election_inv_def)
  have dl: "\<And>c. el_flag s c \<Longrightarrow> el_deadline s c < T"
    using assms(2,4) by (fastforce simp: election_inv_def tick(1))
  have "el_clock s < T" using assms(4) ttl_time_pos [of ttl] by (simp add: tick(1))
  with center_lease.acquire_keeps_exclusive [OF inv tick(6) tick(7), of "el_clock s" "el_flag s"
      "el_deadline s" T] assms(2,3) dl tick
  have "lease_exclusive lease_holder lease_expiry_text rfc (el_clock s) db' ((el_flag s)(me := b))
      (if b then (el_deadline s)(me := ce_later env + ttl_time ttl) else el_deadline s)"
    by (simp add: election_inv_def)
  moreover have "single_lease db'"
    using center_lease.acquire_inv [OF inv, of env me ttl] tick(7) by simp
  ultimately show ?thesis
    using assms(2) tick(5) by (auto simp: election_inv_def tick(1))
next
  case (wait t)
  then show ?thesis using assms(2) by (fastforce simp: election_inv_def lease_exclusive_def)
next
  case (crash me)
  then show ?thesis using assms(2) by (auto simp: election_inv_def lease_exclusive_def)
next
  case (other db')
  then show ?thesis
    using assms(2)
    by (simp add: election_inv_def lease_exclusive_def single_lease_def lease_holder_def lease_expiry_text_def)
qed

lemma election_init_inv:
  "\<lbrakk>ce_fails env CQ_leader = None; ce_fails env CQ_sentinel = None\<rbrakk> \<Longrightarrow> election_inv rfc ttl (election_init env t)"
  by (simp add: election_init_def election_inv_def ensure_lease_sentinel_def single_lease_def lease_exclusive_def)

lemma election_reachable_inv:
  assumes "(election_step rfc ttl)\<^sup>*\<^sup>* s0 s" and "election_inv rfc ttl s0" and "stamp_faithful rfc T"
    and "el_clock s + ttl_time ttl < T"
  shows "election_inv rfc ttl s"
  using assms(1,4)
proof (induction rule: rtranclp_induct)
  case base
  show ?case by (rule assms(2))
next
  case (step s s')
  then show ?case using election_step_inv [OF step.hyps(2) _ assms(3)] election_step_clock [OF step.hyps(2)] by simp
qed

text \<open>
  \<^bold>\<open>C22.\<close> Mutual exclusion of centers: in every interleaving of election ticks, waiting and crashes from
  a fresh store, at most one center believes to be the leader before the lease it won has expired.
  The hypothesis on \<open>rfc\<close> is that timestamps before \<open>T\<close> compare as texts the way they compare as times.
\<close>

theorem one_leader:
  assumes "stamp_faithful rfc T"
    and "ce_fails env CQ_leader = None" and "ce_fails env CQ_sentinel = None"
    and "(election_step rfc ttl)\<^sup>*\<^sup>* (election_init env t) s" and "el_clock s + ttl_time ttl < T"
    and "el_flag s c" and "el_clock s < el_deadline s c"
    and "el_flag s c'" and "el_clock s < el_deadline s c'"
  shows "c = c'"
proof -
  have "election_inv rfc ttl s"
    by (rule election_reachable_inv [OF assms(4) election_init_inv [OF assms(2,3)] assms(1,5)])
  then show ?thesis
    using center_lease.exclusive_unique assms(6-9) by (auto simp: election_inv_def)
qed

lemma leader_tick_claims:
  "\<lbrakk>cdb_leases db = [l]; lr_slot l = leader_slot; lr_expires_at l \<le> ce_rfc env (ce_now env);
    ce_fails env CQ_acquire = None\<rbrakk>
   \<Longrightarrow> leader_tick env me ttl db = (db\<lparr>cdb_leases := [claim_lease env me ttl l]\<rparr>, True)"
  by (simp add: leader_tick_def try_acquire_leadership_def lease_claimable_def)
    (simp add: claim_lease_def)

definition demo_center_env :: "time \<Rightarrow> center_env" where
  "demo_center_env t =
     \<lparr>ce_fails = (\<lambda>_. None), ce_now = t, ce_later = t, ce_rfc = (\<lambda>t. replicate (nat t) (CHR ''a'')),
      ce_id = (\<lambda>n. replicate n (CHR ''x''))\<rparr>"

lemma demo_center_env_simps [simp]:
  "ce_fails (demo_center_env t) q = None" "ce_now (demo_center_env t) = t" "ce_later (demo_center_env t) = t"
  "ce_rfc (demo_center_env t) = (\<lambda>t. replicate (nat t) (CHR ''a''))"
  by (simp_all add: demo_center_env_def)

lemma shutdown_center_keeps [simp]:
  "el_flag (shutdown_center env me s) = el_flag s" "el_deadline (shutdown_center env me s) = el_deadline s"
  "el_clock (shutdown_center env me s) = el_clock s"
  by (simp_all add: shutdown_center_def)

abbreviation demo_stamp :: "time \<Rightarrow> string" where
  "demo_stamp \<equiv> \<lambda>t. replicate (nat t) (CHR ''a'')"

lemma demo_first_tick:
  obtains l where "election_step demo_stamp 15 (election_init (demo_center_env 1) 1)
      ((election_init (demo_center_env 1) 1)
        \<lparr>el_db := (el_db (election_init (demo_center_env 1) 1))\<lparr>cdb_leases := [l]\<rparr>,
         el_flag := (\<lambda>_. False)(''A'' := True), el_deadline := (\<lambda>_. 0)(''A'' := 1 + ttl_time 15)\<rparr>)"
    and "lr_slot l = leader_slot" and "lr_holder l = ''A''"
proof -
  let ?env = "demo_center_env 1" and ?s0 = "election_init (demo_center_env 1) 1"
  let ?l0 = "\<lparr>lr_slot = leader_slot, lr_holder = [], lr_expires_at = epoch_text, lr_term = 0\<rparr>"
  have "leader_tick ?env ''A'' 15 (el_db ?s0) =
      ((el_db ?s0)\<lparr>cdb_leases := [claim_lease ?env ''A'' 15 ?l0]\<rparr>, True)"
    by (rule leader_tick_claims)
      (simp_all add: election_init_def ensure_lease_sentinel_def epoch_text_def)
  from election_step.tick [OF _ _ _ _ _ this, of demo_stamp] show thesis
    by (intro that [of "claim_lease ?env ''A'' 15 ?l0"])
      (simp_all add: election_init_def claim_lease_def)
qed

text \<open>
  \<^bold>\<open>C29.\<close> A clean shutdown is not covered by it: the lease is released but the flag stays set and the loops
  run on while the server drains, so that a second center can win the lease while the first
  still acts as leader.
\<close>

theorem shutdown_two_leaders:
  "\<exists>s1 s2 env. (election_step demo_stamp 15)\<^sup>*\<^sup>* (election_init env 1) s1 \<and>
     (election_step demo_stamp 15)\<^sup>*\<^sup>* (shutdown_center env ''A'' s1) s2 \<and>
     el_flag s2 ''A'' \<and> el_clock s2 < el_deadline s2 ''A'' \<and>
     el_flag s2 ''B'' \<and> el_clock s2 < el_deadline s2 ''B''"
proof -
  let ?env = "demo_center_env 1" and ?s0 = "election_init (demo_center_env 1) 1"
  obtain l s1 where s1: "s1 = ?s0\<lparr>el_db := (el_db ?s0)\<lparr>cdb_leases := [l]\<rparr>,
      el_flag := (\<lambda>_. False)(''A'' := True), el_deadline := (\<lambda>_. 0)(''A'' := 1 + ttl_time 15)\<rparr>"
    and step1: "election_step demo_stamp 15 ?s0 s1"
    and l: "lr_slot l = leader_slot" "lr_holder l = ''A''"
    by (metis demo_first_tick)
  let ?t = "shutdown_center ?env ''A'' s1" and ?l = "l\<lparr>lr_holder := [], lr_expires_at := epoch_text\<rparr>"
  have t: "cdb_leases (el_db ?t) = [?l]"
    by (simp add: shutdown_center_def release_leadership_def s1 l)
  have "leader_tick ?env ''B'' 15 (el_db ?t) =
      ((el_db ?t)\<lparr>cdb_leases := [claim_lease ?env ''B'' 15 ?l]\<rparr>, True)"
    by (rule leader_tick_claims [OF t]) (simp_all add: l epoch_text_def)
  note step2 = election_step.tick [OF _ _ _ _ _ this, of demo_stamp]
  have clk: "el_clock s1 = 1" by (simp add: s1 election_init_def)
  have "election_step demo_stamp 15 ?t (?t\<lparr>el_db := (el_db ?t)\<lparr>cdb_leases := [claim_lease ?env ''B'' 15 ?l]\<rparr>,
      el_flag := (el_flag s1)(''B'' := True), el_deadline := (el_deadline s1)(''B'' := 1 + ttl_time 15)\<rparr>)"
    (is "election_step _ _ _ ?s2")
    using step2 by (simp add: clk)
  moreover have "el_flag ?s2 ''A''" "el_flag ?s2 ''B''" "el_clock ?s2 < el_deadline ?s2 ''A''"
    "el_clock ?s2 < el_deadline ?s2 ''B''"
    by (simp_all add: clk) (simp_all add: s1 ttl_time_def)
  ultimately show ?thesis using step1 r_into_rtranclp by metis
qed

section \<open>Witness\<close>

lemma replicate_stamp_le: "replicate m c \<le> replicate n c \<Longrightarrow> m \<le> n" for c :: char
proof (induction m arbitrary: n)
  case (Suc m)
  then show ?case by (cases n) auto
qed simp

lemma demo_stamp_faithful: "stamp_faithful demo_stamp T"
  by (auto simp: stamp_faithful_def dest!: replicate_stamp_le)

text \<open>Center A wins the lease of a fresh store; nobody else is leader then.\<close>

lemma one_leader_witness:
  "\<exists>s. (election_step demo_stamp 15)\<^sup>*\<^sup>* (election_init (demo_center_env 1) 1) s \<and> el_flag s ''A'' \<and>
     \<not> (\<exists>c. c \<noteq> ''A'' \<and> el_flag s c \<and> el_clock s < el_deadline s c)"
proof -
  let ?env = "demo_center_env 1" and ?s0 = "election_init (demo_center_env 1) 1"
  obtain l s1 where s1: "s1 = ?s0\<lparr>el_db := (el_db ?s0)\<lparr>cdb_leases := [l]\<rparr>,
      el_flag := (\<lambda>_. False)(''A'' := True), el_deadline := (\<lambda>_. 0)(''A'' := 1 + ttl_time 15)\<rparr>"
    and step1: "election_step demo_stamp 15 ?s0 s1"
    by (metis demo_first_tick)
  from step1 have r: "(election_step demo_stamp 15)\<^sup>*\<^sup>* ?s0 s1" by (rule r_into_rtranclp)
  have A: "el_flag s1 ''A''" "el_clock s1 < el_deadline s1 ''A''"
    by (simp_all add: s1 election_init_def ttl_time_def)
  have "c = ''A''" if "el_flag s1 c" "el_clock s1 < el_deadline s1 c" for c
    by (rule one_leader [OF demo_stamp_faithful _ _ r _ that A, of "el_clock s1 + ttl_time 15 + 1"])
      simp_all
  with r A show ?thesis by blast
qed

end
