(* ===== verification/Center_System.thy ===== *)
theory Center_System
  imports Center_Leader
begin

text \<open>
  The control plane as a whole: what a poll pass writes, what a failover pass changes and what it
  leaves alone, and from these the properties of a turn of the loop.
\<close>

section \<open>What a poll pass writes\<close>

definition health_update ::
  "center_env \<Rightarrow> string option \<times> string option \<times> string option \<Rightarrow> server_rec \<Rightarrow> server_rec" where
  "health_update env r s =
     (case r of (server_id, health, error) \<Rightarrow>
        s\<lparr>srv_last_ok := (error = None),
          srv_last_seen := Some (ce_rfc env (ce_now env)), srv_last_health := health, srv_last_error := error,
          srv_server_id := (if server_id \<noteq> None then server_id else srv_server_id s),
          srv_failures := (if error = None then 0 else srv_failures s + 1)\<rparr>)"

fun polled_by ::
  "'j json_api \<Rightarrow> 'j center_net \<Rightarrow> center_env \<Rightarrow> nat \<Rightarrow> poll_target list \<Rightarrow> server_rec \<Rightarrow> server_rec" where
  "polled_by J net env k [] s = s"
| "polled_by J net env k (t # ts) s =
     polled_by J net env (Suc k) ts
       (if srv_sid s = tgt_sid t then health_update env (poll_result J net k t) s else s)"

lemma health_update_keeps [simp]:
  "srv_sid (health_update env r s) = srv_sid s" "target_of (health_update env r s) = target_of s"
  "srv_cluster_ref (health_update env r s) = srv_cluster_ref s"
  "srv_intent (health_update env r s) = srv_intent s" "srv_fenced (health_update env r s) = srv_fenced s"
  by (simp_all add: health_update_def target_of_def split: prod.split)

lemma tgt_target_of [simp]: "tgt_sid (target_of s) = srv_sid s" "tgt_base_url (target_of s) = srv_base_url s"
  "tgt_token (target_of s) = srv_token s"
  by (simp_all add: target_of_def)

lemma record_health_ok:
  "ce_fails env (CQ_record_health sid) = None \<Longrightarrow>
   fst (record_health env db sid a b c) = update_server sid (health_update env (a, b, c)) db"
  by (simp add: record_health_def health_update_def [abs_def])

lemma poll_each_eq:
  assumes "\<forall>q. ce_fails env q = None"
  shows "poll_each J net env k ts db = db\<lparr>cdb_servers := map (polled_by J net env k ts) (cdb_servers db)\<rparr>"
  using assms
proof (induction ts arbitrary: k db)
  case Nil
  have "map (polled_by J net env k []) (cdb_servers db) = cdb_servers db" by (simp add: map_idI)
  then show ?case by simp
next
  case (Cons t ts)
  obtain a b c where r: "poll_result J net k t = (a, b, c)" by (cases "poll_result J net k t") auto
  show ?case
    using Cons by (simp add: r record_health_ok update_server_def comp_def)
qed

lemma poll_once_eq:
  "\<forall>q. ce_fails env q = None \<Longrightarrow>
   poll_once J net env db =
     db\<lparr>cdb_servers := map (polled_by J net env 0 (map target_of (cdb_servers db))) (cdb_servers db)\<rparr>"
  by (simp add: poll_once_def poll_targets_def poll_each_eq)

lemma polled_by_other: "srv_sid s \<notin> tgt_sid ` set ts \<Longrightarrow> polled_by J net env k ts s = s"
  by (induction ts arbitrary: k) auto

lemma polled_by_keeps [simp]:
  "srv_sid (polled_by J net env k ts s) = srv_sid s" "target_of (polled_by J net env k ts s) = target_of s"
  "srv_cluster_ref (polled_by J net env k ts s) = srv_cluster_ref s"
  "srv_intent (polled_by J net env k ts s) = srv_intent s"
  "srv_fenced (polled_by J net env k ts s) = srv_fenced s"
  by (induction ts arbitrary: k s) auto

lemma polled_by_nth:
  assumes "distinct (map srv_sid xs)" and "i < length xs"
  shows "polled_by J net env k (map target_of xs) (xs ! i) =
    health_update env (poll_result J net (k + i) (target_of (xs ! i))) (xs ! i)"
  using assms
proof (induction xs arbitrary: k i)
  case (Cons x xs)
  show ?case
  proof (cases i)
    case 0
    have "srv_sid (health_update env r x) \<notin> tgt_sid ` set (map target_of xs)" for r
      using Cons.prems(1) by (auto simp: image_iff)
    then show ?thesis using 0 by (simp add: polled_by_other)
  next
    case (Suc n)
    with Cons.prems have "xs ! n \<in> set xs" by simp
    with Cons.prems(1) have "srv_sid (xs ! n) \<noteq> srv_sid x" by (auto simp: image_iff)
    with Suc Cons show ?thesis by simp
  qed
qed simp

section \<open>What a failover pass leaves alone\<close>

lemma send_command_db [simp]: "cw_db (fst (send_command net env w sid cmd)) = cw_db w"
  by (simp add: send_command_def post_command_def split: sum.split option.split prod.split)

lemma record_event_keeps [simp]:
  "cdb_servers (fst (record_event env db c k m)) = cdb_servers db"
  "cdb_clusters (fst (record_event env db c k m)) = cdb_clusters db"
  "cdb_leases (fst (record_event env db c k m)) = cdb_leases db"
  by (simp_all add: record_event_def query_s_def split: option.split)

lemma log_failover_keeps [simp]:
  "cdb_servers (cw_db (log_failover env c k m w)) = cdb_servers (cw_db w)"
  "cdb_clusters (cw_db (log_failover env c k m w)) = cdb_clusters (cw_db w)"
  "cw_sent (log_failover env c k m w) = cw_sent w"
  by (simp_all add: log_failover_def)

lemma fold_log_keeps [simp]:
  "cdb_servers (cw_db (fold (log_failover env c k) ms w)) = cdb_servers (cw_db w)"
  "cdb_clusters (cw_db (fold (log_failover env c k) ms w)) = cdb_clusters (cw_db w)"
  "cw_sent (fold (log_failover env c k) ms w) = cw_sent w"
  by (induction ms arbitrary: w) simp_all

lemma run_actions_keeps:
  "run_actions net env cid as w ok = (w', ok') \<Longrightarrow>
   cdb_servers (cw_db w') = cdb_servers (cw_db w) \<and> cdb_clusters (cw_db w') = cdb_clusters (cw_db w)"
proof (induction as arbitrary: w ok)
  case (Cons a as)
  obtain w1 r where s: "send_command net env w (action_sid a) (action_cmd a) = (w1, r)" by force
  then have "cw_db w1 = cw_db w" by (metis fst_conv send_command_db)
  with Cons.prems s show ?case
    by (cases r) (auto dest!: Cons.IH)
qed simp

lemma steer_each_db: "steer_each net body ts w n = (w', m) \<Longrightarrow> cw_db w' = cw_db w"
  by (induction net body ts w n rule: steer_each.induct)
    (auto simp: post_command_def split: sum.splits prod.splits)

lemma steer_dns_keeps [simp]:
  "cdb_servers (cw_db (steer_dns net env cid w)) = cdb_servers (cw_db w)"
  "cdb_clusters (cw_db (steer_dns net env cid w)) = cdb_clusters (cw_db w)"
  by (auto simp: steer_dns_def Let_def split: sum.splits option.splits prod.splits dest: steer_each_db)

lemma set_fenced_clusters [simp]: "cdb_clusters (fst (set_fenced env db sid f)) = cdb_clusters db"
  by (simp add: set_fenced_def query_s_def update_server_def split: option.split)

lemma set_fenced_targets [simp]:
  "map target_of (cdb_servers (fst (set_fenced env db sid f))) = map target_of (cdb_servers db)"
  by (simp add: set_fenced_def query_s_def update_server_def target_of_def split: option.split)

lemma fence_all_keeps [simp]:
  "cdb_clusters (cw_db (fence_all env f sids w)) = cdb_clusters (cw_db w)"
  "map target_of (cdb_servers (cw_db (fence_all env f sids w))) = map target_of (cdb_servers (cw_db w))"
  "cw_sent (fence_all env f sids w) = cw_sent w"
proof -
  let ?f = "\<lambda>sid db. fst (set_fenced env db sid f)"
  have "cdb_clusters (fold ?f sids db) = cdb_clusters db" for db
    by (induction sids arbitrary: db) simp_all
  then show "cdb_clusters (cw_db (fence_all env f sids w)) = cdb_clusters (cw_db w)"
    by (simp add: fence_all_def)
  have "map target_of (cdb_servers (fold ?f sids db)) = map target_of (cdb_servers db)" for db
    by (induction sids arbitrary: db) simp_all
  then show "map target_of (cdb_servers (cw_db (fence_all env f sids w))) = map target_of (cdb_servers (cw_db w))"
    by (simp add: fence_all_def)
qed (simp add: fence_all_def)

section \<open>What a failover pass changes\<close>

abbreviation targets :: "center_world \<Rightarrow> poll_target list" where
  "targets w \<equiv> map target_of (cdb_servers (cw_db w))"

definition active_of :: "center_db \<Rightarrow> string \<Rightarrow> string option option" where
  "active_of db cid = map_option cl_active_primary (find_cluster db cid)"

definition fenced_in :: "center_db \<Rightarrow> string \<Rightarrow> bool" where
  "fenced_in db sid \<longleftrightarrow> (\<forall>s \<in> set (cdb_servers db). srv_sid s = sid \<longrightarrow> srv_fenced s)"

lemma find_map_key:
  "(\<And>x. g (f x) = g x) \<Longrightarrow> List.find (\<lambda>x. g x = k) (map f xs) = map_option f (List.find (\<lambda>x. g x = k) xs)"
  by (induction xs) auto

lemma find_target: "List.find (\<lambda>t. tgt_sid t = sid) (map target_of xs) =
    map_option target_of (List.find (\<lambda>s. srv_sid s = sid) xs)"
  by (induction xs) auto

lemma get_target_eq:
  "get_target env db sid =
     query_r env (CQ_find_server sid) (List.find (\<lambda>t. tgt_sid t = sid) (map target_of (cdb_servers db)))"
  by (simp add: get_target_def find_target)

lemma active_of_update:
  "active_of (fst (set_active_primary env db cid p)) cid' =
     (if ce_fails env (CQ_set_active cid) = None \<and> cid' = cid then map_option (\<lambda>_. p) (find_cluster db cid')
      else active_of db cid')"
proof (cases "ce_fails env (CQ_set_active cid)")
  case None
  let ?f = "\<lambda>c. if cl_cid c = cid then c\<lparr>cl_active_primary := p\<rparr> else c"
  have "find_cluster (fst (set_active_primary env db cid p)) cid' = map_option ?f (find_cluster db cid')"
    using None by (simp add: set_active_primary_def update_cluster_def find_cluster_def find_map_key)
  moreover have "cl_cid c = cid'" if "find_cluster db cid' = Some c" for c
    using that by (auto simp: find_cluster_def dest: find_SomeD)
  ultimately show ?thesis using None
    by (cases "find_cluster db cid'") (auto simp: active_of_def)
qed (simp add: set_active_primary_def)

lemma active_of_cong: "cdb_clusters db = cdb_clusters db' \<Longrightarrow> active_of db cid = active_of db' cid"
  by (simp add: active_of_def find_cluster_def)

lemma set_active_servers [simp]: "cdb_servers (fst (set_active_primary env db cid p)) = cdb_servers db"
  by (simp add: set_active_primary_def query_s_def update_cluster_def split: option.split)

lemma persist_decision_active:
  "active_of (cw_db (persist_decision net env cid d w)) cid' =
     (case fd_new_active d of
        None \<Rightarrow> active_of (cw_db w) cid'
      | Some p \<Rightarrow> active_of (fst (set_active_primary env (cw_db w) cid (Some p))) cid')"
  by (cases "fd_new_active d") (auto simp: persist_decision_def Let_def intro!: active_of_cong)

lemma persist_decision_targets [simp]: "targets (persist_decision net env cid d w) = targets w"
  by (simp add: persist_decision_def Let_def split: option.split)

lemma carry_out_unfold:
  assumes "\<not> decision_is_empty d" and "run_actions net env cid (fd_actions d) w True = (w1, ok)"
  shows "carry_out net env cid d w = fold (log_failover env (Some cid) ''failover'') (fd_log d)
           (if ok then persist_decision net env cid d w1 else w1)"
  using assms by (simp add: carry_out_def)

lemma carry_out_targets [simp]: "targets (carry_out net env cid d w) = targets w"
proof (cases "decision_is_empty d")
  case False
  obtain w1 ok where r: "run_actions net env cid (fd_actions d) w True = (w1, ok)" by force
  from run_actions_keeps [OF r] show ?thesis by (simp add: carry_out_unfold [OF False r])
qed (simp add: carry_out_def)

lemma carry_out_other_active:
  assumes "cid' \<noteq> cid"
  shows "active_of (cw_db (carry_out net env cid d w)) cid' = active_of (cw_db w) cid'"
proof (cases "decision_is_empty d")
  case False
  obtain w1 ok where r: "run_actions net env cid (fd_actions d) w True = (w1, ok)" by force
  have "active_of (cw_db (carry_out net env cid d w)) cid' =
      active_of (cw_db (if ok then persist_decision net env cid d w1 else w1)) cid'"
    by (rule active_of_cong) (simp add: carry_out_unfold [OF False r])
  also have "\<dots> = active_of (cw_db w1) cid'"
    using assms by (simp add: persist_decision_active active_of_update split: option.split)
  also have "\<dots> = active_of (cw_db w) cid'" by (rule active_of_cong) (simp add: run_actions_keeps [OF r])
  finally show ?thesis .
qed (simp add: carry_out_def)

text \<open>Fencing: a server that is fenced stays so unless the decision unfences it.\<close>

lemma set_fenced_fenced:
  "fenced_in db p \<Longrightarrow> sid \<noteq> p \<or> f \<Longrightarrow> fenced_in (fst (set_fenced env db sid f)) p"
  by (cases "ce_fails env (CQ_set_fenced sid)") (auto simp: set_fenced_def update_server_def fenced_in_def)

lemma fence_all_fenced:
  assumes "fenced_in (cw_db w) p" and "p \<notin> set sids \<or> f"
  shows "fenced_in (cw_db (fence_all env f sids w)) p"
proof -
  have "fenced_in (fold (\<lambda>sid db. fst (set_fenced env db sid f)) sids db) p" if "fenced_in db p" for db
    using that assms(2)
  proof (induction sids arbitrary: db)
    case (Cons x xs)
    then have "fenced_in (fst (set_fenced env db x f)) p" by (intro set_fenced_fenced) auto
    moreover have "p \<notin> set xs \<or> f" using Cons.prems(2) by auto
    ultimately have "fenced_in (fold (\<lambda>sid db. fst (set_fenced env db sid f)) xs (fst (set_fenced env db x f))) p"
      by (rule Cons.IH)
    then show ?case by simp
  qed simp
  with assms(1) show ?thesis by (simp add: fence_all_def)
qed

lemma set_fenced_fences:
  "ce_fails env (CQ_set_fenced p) = None \<Longrightarrow> fenced_in (fst (set_fenced env db p True)) p"
  by (simp add: set_fenced_def update_server_def fenced_in_def ball_Un)

lemma fence_all_fences:
  assumes "p \<in> set sids" and "ce_fails env (CQ_set_fenced p) = None"
  shows "fenced_in (cw_db (fence_all env True sids w)) p"
proof -
  obtain xs ys where sids: "sids = xs @ p # ys" using assms(1) by (meson split_list)
  let ?w = "w\<lparr>cw_db := fst (set_fenced env (cw_db (fence_all env True xs w)) p True)\<rparr>"
  have "fenced_in (cw_db ?w) p" by (simp add: set_fenced_fences assms(2))
  then have "fenced_in (cw_db (fence_all env True ys ?w)) p" by (rule fence_all_fenced) simp
  then show ?thesis by (simp add: fence_all_def sids)
qed

lemma fenced_in_cong: "cdb_servers db = cdb_servers db' \<Longrightarrow> fenced_in db p = fenced_in db' p"
  by (simp add: fenced_in_def)

lemma persist_decision_fenced:
  assumes "p \<notin> set (fd_unfence d)"
    and "p \<in> set (fd_fence d) \<and> ce_fails env (CQ_set_fenced p) = None \<or> fenced_in (cw_db w) p"
  shows "fenced_in (cw_db (persist_decision net env cid d w)) p"
proof -
  obtain w1 where w1: "persist_decision net env cid d w =
      fence_all env False (fd_unfence d) (fence_all env True (fd_fence d) w1)"
    and s: "cdb_servers (cw_db w1) = cdb_servers (cw_db w)"
    by (cases "fd_new_active d") (simp_all add: persist_decision_def Let_def)
  have "fenced_in (cw_db (fence_all env True (fd_fence d) w1)) p"
    using assms(2)
  proof
    assume "p \<in> set (fd_fence d) \<and> ce_fails env (CQ_set_fenced p) = None"
    then show ?thesis by (simp add: fence_all_fences)
  next
    assume "fenced_in (cw_db w) p"
    then have "fenced_in (cw_db w1) p" by (simp add: fenced_in_cong [OF s])
    then show ?thesis by (rule fence_all_fenced) simp
  qed
  then show ?thesis unfolding w1 by (rule fence_all_fenced) (simp add: assms(1))
qed

lemma carry_out_keeps_fenced:
  assumes "p \<notin> set (fd_unfence d)" and "fenced_in (cw_db w) p"
  shows "fenced_in (cw_db (carry_out net env cid d w)) p"
proof (cases "decision_is_empty d")
  case False
  obtain w1 ok where r: "run_actions net env cid (fd_actions d) w True = (w1, ok)" by force
  have "fenced_in (cw_db w1) p"
    using assms(2) run_actions_keeps [OF r] by (simp add: fenced_in_def)
  then have "fenced_in (cw_db (if ok then persist_decision net env cid d w1 else w1)) p"
    by (simp add: persist_decision_fenced [OF assms(1)])
  moreover have "cdb_servers (cw_db (carry_out net env cid d w)) =
      cdb_servers (cw_db (if ok then persist_decision net env cid d w1 else w1))"
    by (simp add: carry_out_unfold [OF False r])
  ultimately show ?thesis by (simp only: fenced_in_def)
qed (simp add: carry_out_def assms(2))

text \<open>Commands: what was sent stays sent; an accepted promotion is carried through.\<close>

definition accepts :: "'j center_net \<Rightarrow> poll_target \<Rightarrow> string \<Rightarrow> bool" where
  "accepts net t cmd \<longleftrightarrow>
     (\<forall>k. \<exists>st body. n_post net k (tgt_base_url t @ ''/mgmt/'' @ cmd) (tgt_token t) EmptyBody = Inr (st, body)
        \<and> is_2xx st)"

lemma post_command_sent: "set (cw_sent w) \<subseteq> set (cw_sent (fst (post_command net w u t b)))"
  by (auto simp: post_command_def)

lemma send_command_sent: "set (cw_sent w) \<subseteq> set (cw_sent (fst (send_command net env w sid cmd)))"
  by (auto simp: send_command_def post_command_def split: sum.splits option.splits prod.splits)

lemma run_actions_sent: "set (cw_sent w) \<subseteq> set (cw_sent (fst (run_actions net env cid as w ok)))"
proof (induction as arbitrary: w ok)
  case (Cons a as)
  obtain w1 r where s: "send_command net env w (action_sid a) (action_cmd a) = (w1, r)" by force
  then have "set (cw_sent w) \<subseteq> set (cw_sent w1)" by (metis fst_conv send_command_sent)
  moreover have "set (cw_sent w1) \<subseteq> set (cw_sent (fst (run_actions net env cid (a # as) w ok)))"
    using Cons.IH [of w1 ok] Cons.IH [of "log_failover env (Some cid) ''error''
      (action_cmd a @ '' '' @ action_sid a @ '' failed: '' @ projl r) w1" "ok \<and> \<not> is_promote a"] s
    by (cases r) simp_all
  ultimately show ?case by (rule subset_trans)
qed simp

lemma steer_each_sent: "set (cw_sent w) \<subseteq> set (cw_sent (fst (steer_each net body ts w n)))"
proof (induction ts arbitrary: w n)
  case (Cons t ts)
  obtain w1 r where p: "post_command net w (tgt_base_url t @ ''/mgmt/dns'') (tgt_token t) body = (w1, r)"
    by force
  then have "set (cw_sent w) \<subseteq> set (cw_sent w1)" by (metis fst_conv post_command_sent)
  moreover have "set (cw_sent w1) \<subseteq> set (cw_sent (fst (steer_each net body (t # ts) w n)))"
    using Cons.IH [of w1] by (simp add: p split: sum.split prod.split)
  ultimately show ?case by (rule subset_trans)
qed simp

lemma steer_dns_sent: "set (cw_sent w) \<subseteq> set (cw_sent (steer_dns net env cid w))"
proof -
  have "set (cw_sent w) \<subseteq> set (cw_sent w')" if "steer_each net b ts w n = (w', m)" for b ts n w' m
    using steer_each_sent [of w net b ts n] that by simp
  then show ?thesis by (simp add: steer_dns_def Let_def split: sum.split option.split prod.split)
qed

lemma persist_decision_sent: "set (cw_sent w) \<subseteq> set (cw_sent (persist_decision net env cid d w))"
proof (cases "fd_new_active d")
  case (Some p)
  have "set (cw_sent (w\<lparr>cw_db := x\<rparr>)) \<subseteq> set (cw_sent (steer_dns net env cid (w\<lparr>cw_db := x\<rparr>)))" for x
    by (rule steer_dns_sent)
  with Some show ?thesis by (simp add: persist_decision_def)
qed (simp add: persist_decision_def)

lemma carry_out_sent: "set (cw_sent w) \<subseteq> set (cw_sent (carry_out net env cid d w))"
proof (cases "decision_is_empty d")
  case False
  obtain w1 ok where r: "run_actions net env cid (fd_actions d) w True = (w1, ok)" by force
  have "set (cw_sent w) \<subseteq> set (cw_sent w1)" using run_actions_sent r by (metis fst_conv)
  moreover have "set (cw_sent w1) \<subseteq> set (cw_sent (carry_out net env cid d w))"
    using persist_decision_sent [of w1 net env cid d] by (simp add: carry_out_unfold [OF False r])
  ultimately show ?thesis by (rule subset_trans)
qed (simp add: carry_out_def)

lemma send_command_accepted:
  assumes "\<forall>q. ce_fails env q = None" and "List.find (\<lambda>t. tgt_sid t = sid) (targets w) = Some t"
    and "accepts net t cmd"
  shows "\<exists>w'. send_command net env w sid cmd = (w', Inr ()) \<and>
    (tgt_base_url t @ ''/mgmt/'' @ cmd, tgt_token t, EmptyBody) \<in> set (cw_sent w')"
proof -
  obtain st body where "n_post net (length (cw_sent w)) (tgt_base_url t @ ''/mgmt/'' @ cmd) (tgt_token t) EmptyBody
      = Inr (st, body)" "is_2xx st"
    using assms(3) unfolding accepts_def by blast
  with assms(1,2) show ?thesis by (simp add: send_command_def get_target_eq post_command_def)
qed

lemma run_actions_promoted:
  assumes "\<forall>q. ce_fails env q = None" and "List.find (\<lambda>t. tgt_sid t = b) (targets w) = Some t"
    and "accepts net t ''promote''" and "\<forall>x. Promote x \<in> set as \<longrightarrow> x = b"
  shows "snd (run_actions net env cid as w ok) = ok \<and>
    (Promote b \<in> set as \<longrightarrow> (tgt_base_url t @ ''/mgmt/promote'', tgt_token t, EmptyBody)
       \<in> set (cw_sent (fst (run_actions net env cid as w ok))))"
  using assms(2,4)
proof (induction as arbitrary: w ok)
  case (Cons a as)
  obtain w1 r where s: "send_command net env w (action_sid a) (action_cmd a) = (w1, r)" by force
  then have db: "cw_db w1 = cw_db w" by (metis fst_conv send_command_db)
  show ?case
  proof (cases a)
    case (Promote x)
    then have "x = b" using Cons.prems(2) by simp
    then obtain w' where "send_command net env w b ''promote'' = (w', Inr ())"
      and sent: "(tgt_base_url t @ ''/mgmt/promote'', tgt_token t, EmptyBody) \<in> set (cw_sent w')"
      using send_command_accepted [OF assms(1) Cons.prems(1) assms(3)] by auto
    with s Promote \<open>x = b\<close> have r: "w' = w1" "r = Inr ()" by simp_all
    have red: "run_actions net env cid (a # as) w ok = run_actions net env cid as w1 ok"
      by (simp only: run_actions.simps s r prod.case sum.case)
    have "List.find (\<lambda>t. tgt_sid t = b) (targets w1) = Some t" using Cons.prems(1) by (simp only: db)
    moreover have "\<forall>x. Promote x \<in> set as \<longrightarrow> x = b" using Cons.prems(2) by simp
    ultimately have "snd (run_actions net env cid as w1 ok) = ok" using Cons.IH by blast
    moreover have "(tgt_base_url t @ ''/mgmt/promote'', tgt_token t, EmptyBody)
        \<in> set (cw_sent (fst (run_actions net env cid as w1 ok)))"
      using sent unfolding r by (rule subsetD [OF run_actions_sent])
    ultimately show ?thesis unfolding red by simp
  next
    case (Demote x)
    then have "\<not> is_promote a" by simp
    define w2 where "w2 = (case r of Inr _ \<Rightarrow> w1 | Inl e \<Rightarrow> log_failover env (Some cid) ''error''
      (action_cmd a @ '' '' @ action_sid a @ '' failed: '' @ e) w1)"
    have red: "run_actions net env cid (a # as) w ok = run_actions net env cid as w2 ok"
      using \<open>\<not> is_promote a\<close> by (cases r) (simp_all add: s w2_def)
    have "targets w2 = targets w" by (simp add: w2_def db split: sum.split)
    then have "List.find (\<lambda>t. tgt_sid t = b) (targets w2) = Some t" using Cons.prems(1) by (simp only:)
    moreover have "\<forall>x. Promote x \<in> set as \<longrightarrow> x = b" using Cons.prems(2) by simp
    ultimately have "snd (run_actions net env cid as w2 ok) = ok \<and>
      (Promote b \<in> set as \<longrightarrow> (tgt_base_url t @ ''/mgmt/promote'', tgt_token t, EmptyBody)
         \<in> set (cw_sent (fst (run_actions net env cid as w2 ok))))"
      by (rule Cons.IH)
    then show ?thesis unfolding red by (simp add: Demote)
  qed
qed simp

section \<open>A turn of the loop\<close>

lemma carry_out_promoted:
  assumes "\<forall>q. ce_fails env q = None" and "List.find (\<lambda>t. tgt_sid t = b) (targets w) = Some t"
    and "accepts net t ''promote''" and "Promote b \<in> set (fd_actions d)"
    and "\<forall>x. Promote x \<in> set (fd_actions d) \<longrightarrow> x = b" and "fd_new_active d = Some b"
    and "p \<in> set (fd_fence d)" and "p \<notin> set (fd_unfence d)" and "active_of (cw_db w) cid \<noteq> None"
  shows "active_of (cw_db (carry_out net env cid d w)) cid = Some (Some b)"
    and "fenced_in (cw_db (carry_out net env cid d w)) p"
    and "(tgt_base_url t @ ''/mgmt/promote'', tgt_token t, EmptyBody) \<in> set (cw_sent (carry_out net env cid d w))"
proof -
  obtain w1 ok where r: "run_actions net env cid (fd_actions d) w True = (w1, ok)" by force
  have ne: "\<not> decision_is_empty d" using assms(6) by (simp add: decision_is_empty_def)
  from run_actions_promoted [OF assms(1,2,3,5), of cid True] r assms(4)
  have ok: "ok" and sent: "(tgt_base_url t @ ''/mgmt/promote'', tgt_token t, EmptyBody) \<in> set (cw_sent w1)"
    by simp_all
  note co = carry_out_unfold [OF ne r]
  let ?w2 = "persist_decision net env cid d w1"
  have "active_of (cw_db w1) cid = active_of (cw_db w) cid"
    by (rule active_of_cong) (simp add: run_actions_keeps [OF r])
  then have "find_cluster (cw_db w1) cid \<noteq> None" using assms(9) by (auto simp: active_of_def)
  then have "active_of (cw_db ?w2) cid = Some (Some b)"
    using assms(1,6) by (auto simp: persist_decision_active active_of_update)
  moreover have "active_of (cw_db (carry_out net env cid d w)) cid = active_of (cw_db ?w2) cid"
    by (rule active_of_cong) (simp add: co ok)
  ultimately show "active_of (cw_db (carry_out net env cid d w)) cid = Some (Some b)" by simp
  have "fenced_in (cw_db ?w2) p" using assms(1,7,8) by (intro persist_decision_fenced) auto
  then show "fenced_in (cw_db (carry_out net env cid d w)) p" by (simp add: fenced_in_def co ok)
  show "(tgt_base_url t @ ''/mgmt/promote'', tgt_token t, EmptyBody) \<in> set (cw_sent (carry_out net env cid d w))"
    using sent persist_decision_sent [of w1 net env cid d] by (simp add: co ok subset_iff)
qed

definition carry_views ::
  "'j center_net \<Rightarrow> center_env \<Rightarrow> (string \<times> cluster_view) list \<Rightarrow> center_world \<Rightarrow> center_world" where
  "carry_views net env vs w = fold (\<lambda>(cid, view). carry_out net env cid (evaluate view)) vs w"

lemma carry_views_simps [simp]:
  "carry_views net env [] w = w"
  "carry_views net env ((cid, v) # vs) w = carry_views net env vs (carry_out net env cid (evaluate v) w)"
  "carry_views net env (us @ vs) w = carry_views net env vs (carry_views net env us w)"
  by (simp_all add: carry_views_def)

lemma carry_views_frame:
  shows "targets (carry_views net env vs w) = targets w"
    and "cid \<notin> fst ` set vs \<Longrightarrow> active_of (cw_db (carry_views net env vs w)) cid = active_of (cw_db w) cid"
    and "set (cw_sent w) \<subseteq> set (cw_sent (carry_views net env vs w))"
proof -
  show "targets (carry_views net env vs w) = targets w"
  proof (induction vs arbitrary: w)
    case (Cons x vs)
    then show ?case by (cases x) simp
  qed simp
  show "active_of (cw_db (carry_views net env vs w)) cid = active_of (cw_db w) cid" if "cid \<notin> fst ` set vs"
    using that
  proof (induction vs arbitrary: w)
    case (Cons x vs)
    then show ?case by (cases x) (simp add: carry_out_other_active)
  qed simp
  show "set (cw_sent w) \<subseteq> set (cw_sent (carry_views net env vs w))"
  proof (induction vs arbitrary: w)
    case (Cons x vs)
    obtain cid v where x: "x = (cid, v)" by force
    have "set (cw_sent w) \<subseteq> set (cw_sent (carry_out net env cid (evaluate v) w))" by (rule carry_out_sent)
    also have "\<dots> \<subseteq> set (cw_sent (carry_views net env (x # vs) w))" using Cons x by simp
    finally show ?case .
  qed simp
qed

lemma carry_views_fenced:
  "\<lbrakk>\<forall>(cid, v) \<in> set vs. p \<notin> set (fd_unfence (evaluate v)); fenced_in (cw_db w) p\<rbrakk>
   \<Longrightarrow> fenced_in (cw_db (carry_views net env vs w)) p"
proof (induction vs arbitrary: w)
  case (Cons x vs)
  obtain cid v where x: "x = (cid, v)" by force
  have "fenced_in (cw_db (carry_out net env cid (evaluate v) w)) p"
    using Cons.prems x by (intro carry_out_keeps_fenced) auto
  then have "fenced_in (cw_db (carry_views net env vs (carry_out net env cid (evaluate v) w))) p"
    using Cons.prems(1) by (intro Cons.IH) auto
  then show ?case by (simp add: x)
qed simp

lemma evaluate_unfence:
  assumes "x \<in> set (fd_unfence (evaluate v))"
  shows "\<exists>s \<in> set (cv_servers v). sv_sid s = x \<and> sv_healthy s"
proof (cases "cv_auto_failover v")
  case True
  then obtain active d where ap: "auto_promote v (resolve_active v) = (active, d)"
    and ev: "evaluate v = fold (guard_one (active_after v)) (cv_servers v)
                            (fold (fence_one (active_after v)) (cv_servers v) d)"
    by (rule evaluate_armed)
  from assms show ?thesis
    using auto_promote_parts(1) [OF ap] by (auto simp: ev stage_simps fence_unfence returns_fenced_def)
next
  case False
  with assms show ?thesis by (simp add: evaluate_def default_decision_def)
qed

text \<open>The view of a cluster after a poll: a failed poll counts, a successful one makes healthy.\<close>

definition health_url :: "server_rec \<Rightarrow> string" where
  "health_url s = srv_base_url s @ ''/mgmt/health''"

lemma poll_once_servers:
  assumes "\<forall>q. ce_fails env q = None" and "distinct (map srv_sid (cdb_servers db))"
  shows "length (cdb_servers (poll_once J net env db)) = length (cdb_servers db)"
    and "i < length (cdb_servers db) \<Longrightarrow> cdb_servers (poll_once J net env db) ! i =
           health_update env (poll_result J net i (target_of (cdb_servers db ! i))) (cdb_servers db ! i)"
    and "map srv_sid (cdb_servers (poll_once J net env db)) = map srv_sid (cdb_servers db)"
    and "map target_of (cdb_servers (poll_once J net env db)) = map target_of (cdb_servers db)"
    and "cdb_clusters (poll_once J net env db) = cdb_clusters db"
  using polled_by_nth [OF assms(2), of i J net env 0] by (simp_all add: poll_once_eq [OF assms(1)] comp_def)

lemma poll_failed:
  assumes "\<forall>q. ce_fails env q = None" and "distinct (map srv_sid (cdb_servers db))"
    and "i < length (cdb_servers db)" and "n_get net i (health_url (cdb_servers db ! i)) (srv_token (cdb_servers db ! i)) = Inl e"
  shows "\<not> srv_last_ok (cdb_servers (poll_once J net env db) ! i)"
    and "srv_failures (cdb_servers (poll_once J net env db) ! i) = srv_failures (cdb_servers db ! i) + 1"
  using assms(4)
  by (simp_all add: poll_once_servers(2) [OF assms(1-3)] poll_result_def health_update_def health_url_def)

lemma poll_succeeded:
  assumes "\<forall>q. ce_fails env q = None" and "distinct (map srv_sid (cdb_servers db))"
    and "i < length (cdb_servers db)" and "n_get net i (health_url (cdb_servers db ! i)) (srv_token (cdb_servers db ! i)) = Inr h"
  shows "srv_last_ok (cdb_servers (poll_once J net env db) ! i)"
  using assms(4)
  by (simp add: poll_once_servers(2) [OF assms(1-3)] poll_result_def health_update_def health_url_def)

lemma distinct_filter_map: "distinct (map f xs) \<Longrightarrow> distinct (map f (filter P xs))"
  by (induction xs) auto

lemma same_sid: "\<lbrakk>distinct (map srv_sid xs); x \<in> set xs; y \<in> set xs; srv_sid x = srv_sid y\<rbrakk> \<Longrightarrow> x = y"
  by (rule inj_onD [of srv_sid "set xs"]) (simp_all add: distinct_map)

lemma cluster_view_promotes:
  assumes "distinct (map srv_sid (cdb_servers db))" and "cl_auto_failover c"
    and "p \<in> set (cdb_servers db)" "srv_cluster_ref p = Some (cl_cid c)" "cl_active_primary c = Some (srv_sid p)"
      "\<not> srv_last_ok p" "max (cluster_threshold c) 1 \<le> srv_failures p"
    and "q \<in> set (cdb_servers db)" "srv_cluster_ref q = Some (cl_cid c)"
      "parse_intent (srv_intent q) = Some StandbyIntent" "srv_last_ok q" "\<not> srv_fenced q"
  obtains b where "b \<in> set (cdb_servers db)" and "srv_cluster_ref b = Some (cl_cid c)"
    and "parse_intent (srv_intent b) = Some StandbyIntent"
    and "Promote (srv_sid b) \<in> set (fd_actions (evaluate (cluster_view_of J db c)))"
    and "\<forall>x. Promote x \<in> set (fd_actions (evaluate (cluster_view_of J db c))) \<longrightarrow> x = srv_sid b"
proof -
  let ?v = "cluster_view_of J db c"
  let ?in = "\<lambda>s. srv_cluster_ref s = Some (cl_cid c)"
  have srv: "cv_servers ?v = map (server_view_of J) (filter ?in (cdb_servers db))"
    and v: "cv_auto_failover ?v" "cv_active ?v = Some (srv_sid p)" "cv_threshold ?v = cluster_threshold c"
    using assms(2,5) by (simp_all add: cluster_view_of_def)
  have sid: "sv_sid (server_view_of J s) = srv_sid s" for s by (simp add: server_view_of_def)
  have "distinct (map sv_sid (cv_servers ?v))"
    using distinct_filter_map [OF assms(1)] by (simp add: srv sid comp_def)
  moreover have "server_view_of J p \<in> set (cv_servers ?v)" using assms(3,4) by (simp add: srv)
  ultimately have "find_server (cv_servers ?v) (sv_sid (server_view_of J p)) = Some (server_view_of J p)"
    by (simp only: find_server_def find_distinct_key)
  then have down: "active_down ?v (fst (resolve_active ?v))"
    using assms(6,7) v by (simp add: resolve_active_def active_down_def sid) (simp add: server_view_of_def)
  have "server_view_of J q \<in> set (cv_servers ?v)" using assms(8,9) by (simp add: srv)
  moreover have "is_candidate (server_view_of J q)" using assms(10-12) by (simp add: is_candidate_def server_view_of_def)
  ultimately obtain d ds where d: "candidates ?v = d # ds"
    by (cases "candidates ?v") (auto simp: candidates_Nil)
  from candidates_hd(1,2) [OF d] obtain b where b: "d = server_view_of J b" "b \<in> set (cdb_servers db)" "?in b"
    and "is_candidate (server_view_of J b)"
    by (auto simp: srv)
  then have "parse_intent (srv_intent b) = Some StandbyIntent"
    by (auto simp: is_candidate_def server_view_of_def split: option.splits)
  then show thesis
    using b evaluate_promotes [OF v(1)] down d sid by (intro that [of b]) auto
qed

lemma run_failover_promotes:
  assumes ok: "\<forall>q. ce_fails env q = None"
    and sids: "distinct (map srv_sid (cdb_servers (cw_db w)))"
    and cids: "distinct (map cl_cid (cdb_clusters (cw_db w)))" and c: "c \<in> set (cdb_clusters (cw_db w))"
    and p: "p \<in> set (cdb_servers (cw_db w))" "\<not> srv_last_ok p" "cl_active_primary c = Some (srv_sid p)" "srv_sid p \<noteq> []"
    and b: "b \<in> set (cdb_servers (cw_db w))" "accepts net (target_of b) ''promote''"
    and armed: "cl_auto_failover c"
    and d: "d = evaluate (cluster_view_of J (cw_db w) c)" "Promote (srv_sid b) \<in> set (fd_actions d)"
      "\<forall>x. Promote x \<in> set (fd_actions d) \<longrightarrow> x = srv_sid b"
  shows "active_of (cw_db (run_failover J net env w)) (cl_cid c) = Some (Some (srv_sid b)) \<and>
    fenced_in (cw_db (run_failover J net env w)) (srv_sid p) \<and>
    (srv_base_url b @ ''/mgmt/promote'', srv_token b, EmptyBody) \<in> set (cw_sent (run_failover J net env w))"
proof -
  let ?view = "\<lambda>c. (cl_cid c, cluster_view_of J (cw_db w) c)"
  let ?v = "cluster_view_of J (cw_db w) c"
  from c obtain as bs where split: "cdb_clusters (cw_db w) = as @ c # bs" by (meson split_list)
  let ?w1 = "carry_views net env (map ?view as) w"
  let ?w2 = "carry_out net env (cl_cid c) d ?w1"
  have run: "run_failover J net env w = carry_views net env (map ?view bs) ?w2"
    using ok by (simp add: run_failover_def cluster_views_def split d(1) flip: carry_views_def)
  have notin: "cl_cid c \<notin> fst ` set (map ?view as)" "cl_cid c \<notin> fst ` set (map ?view bs)"
    using cids by (auto simp: split image_iff)
  have armed': "cv_auto_failover ?v" using armed by (simp add: cluster_view_of_def)
  have ra: "fst (resolve_active ?v) = Some (srv_sid p)"
    using p(3) by (simp add: resolve_active_def cluster_view_of_def)
  note pa = promoted_is_active [OF armed' d(2) [unfolded d(1)]]
  have unf: "srv_sid p \<notin> set (fd_unfence (evaluate (cluster_view_of J (cw_db w) x)))" for x
    using evaluate_unfence [of "srv_sid p" "cluster_view_of J (cw_db w) x"] p(1,2) same_sid [OF sids]
    by (auto simp: cluster_view_of_def server_view_of_def)
  have "List.find (\<lambda>t. tgt_sid t = srv_sid b) (targets ?w1) = Some (target_of b)"
    by (simp add: carry_views_frame(1) find_target find_distinct_key [OF b(1) sids])
  moreover have "active_of (cw_db ?w1) (cl_cid c) \<noteq> None"
    unfolding carry_views_frame(2) [OF notin(1)] using c
    by (auto simp: active_of_def find_cluster_def find_None_iff)
  moreover have "srv_sid p \<in> set (fd_fence d)" "fd_new_active d = Some (srv_sid b)"
    using pa p(4) by (simp_all add: d(1) ra or_default_def)
  ultimately have w2: "active_of (cw_db ?w2) (cl_cid c) = Some (Some (srv_sid b))" "fenced_in (cw_db ?w2) (srv_sid p)"
    "(srv_base_url b @ ''/mgmt/promote'', srv_token b, EmptyBody) \<in> set (cw_sent ?w2)"
    using carry_out_promoted [OF ok _ b(2) d(2,3), of ?w1 "srv_sid p" "cl_cid c"] unf d(1) by simp_all
  have "fenced_in (cw_db (carry_views net env (map ?view bs) ?w2)) (srv_sid p)"
    by (rule carry_views_fenced [OF _ w2(2)]) (auto simp: unf)
  moreover have "active_of (cw_db (carry_views net env (map ?view bs) ?w2)) (cl_cid c) = Some (Some (srv_sid b))"
    by (simp only: carry_views_frame(2) [OF notin(2)] w2(1))
  ultimately show ?thesis
    unfolding run using subsetD [OF carry_views_frame(3) w2(3)] by simp
qed

text \<open>
  \<^bold>\<open>C23.\<close> Failover happens: when the recorded active primary of an armed cluster misses the poll that
  completes its threshold, while some unfenced standby of the cluster answers, the leader's turn of the
  loop promotes a standby of the cluster, records it as the active primary and fences the old one,
  whatever the other clusters need. No query fails, and the servers accept the command.
\<close>

theorem failover_tick_promotes:
  assumes "\<forall>q. ce_fails env q = None"
    and "distinct (map srv_sid (cdb_servers (cw_db w)))" and "distinct (map cl_cid (cdb_clusters (cw_db w)))"
    and "c \<in> set (cdb_clusters (cw_db w))" and "cl_auto_failover c"
    and "i < length (cdb_servers (cw_db w))" and "p = cdb_servers (cw_db w) ! i"
    and "cl_active_primary c = Some (srv_sid p)" and "srv_sid p \<noteq> []" and "srv_cluster_ref p = Some (cl_cid c)"
    and "cluster_threshold c \<le> srv_failures p + 1" and "n_get net i (health_url p) (srv_token p) = Inl e"
    and "j < length (cdb_servers (cw_db w))" and "q = cdb_servers (cw_db w) ! j"
    and "srv_cluster_ref q = Some (cl_cid c)" and "parse_intent (srv_intent q) = Some StandbyIntent"
    and "\<not> srv_fenced q" and "n_get net j (health_url q) (srv_token q) = Inr h"
    and "\<forall>s \<in> set (cdb_servers (cw_db w)). accepts net (target_of s) ''promote''"
  shows "\<exists>b \<in> set (cdb_servers (cw_db w)). srv_cluster_ref b = Some (cl_cid c) \<and>
    parse_intent (srv_intent b) = Some StandbyIntent \<and>
    active_of (cw_db (poll_tick J net env True w)) (cl_cid c) = Some (Some (srv_sid b)) \<and>
    fenced_in (cw_db (poll_tick J net env True w)) (srv_sid p) \<and>
    (srv_base_url b @ ''/mgmt/promote'', srv_token b, EmptyBody) \<in> set (cw_sent (poll_tick J net env True w))"
proof -
  let ?db = "poll_once J net env (cw_db w)" and ?w = "w\<lparr>cw_db := poll_once J net env (cw_db w)\<rparr>"
  note po = poll_once_servers [OF assms(1,2), where J = J and net = net]
  let ?p = "cdb_servers ?db ! i" and ?q = "cdb_servers ?db ! j"
  have sids: "distinct (map srv_sid (cdb_servers ?db))" using assms(2) by (simp add: po(3))
  have pq: "?p \<in> set (cdb_servers ?db)" "?q \<in> set (cdb_servers ?db)" using assms(6,13) by (simp_all add: po(1))
  have keep: "srv_sid ?p = srv_sid p" "srv_cluster_ref ?p = srv_cluster_ref p"
      "srv_cluster_ref ?q = srv_cluster_ref q" "srv_intent ?q = srv_intent q" "srv_fenced ?q = srv_fenced q"
    using assms(6,7,13,14) by (simp_all add: po(2))
  have down: "\<not> srv_last_ok ?p" "max (cluster_threshold c) 1 \<le> srv_failures ?p"
    using poll_failed [OF assms(1,2,6) assms(12) [unfolded assms(7)], where J = J] assms(7,11) by simp_all
  have up: "srv_last_ok ?q" by (rule poll_succeeded [OF assms(1,2,13) assms(18) [unfolded assms(14)]])
  have clp: "srv_cluster_ref ?p = Some (cl_cid c)" "cl_active_primary c = Some (srv_sid ?p)"
    and clq: "srv_cluster_ref ?q = Some (cl_cid c)" "parse_intent (srv_intent ?q) = Some StandbyIntent" "\<not> srv_fenced ?q"
    using assms(8,10,15,16,17) by (simp_all add: keep)
  obtain b where b: "b \<in> set (cdb_servers ?db)" "srv_cluster_ref b = Some (cl_cid c)"
      "parse_intent (srv_intent b) = Some StandbyIntent"
    and pr: "Promote (srv_sid b) \<in> set (fd_actions (evaluate (cluster_view_of J ?db c)))"
      "\<forall>x. Promote x \<in> set (fd_actions (evaluate (cluster_view_of J ?db c))) \<longrightarrow> x = srv_sid b"
    by (rule cluster_view_promotes [OF sids assms(5) pq(1) clp down pq(2) clq(1,2) up clq(3)])
  from b(1) obtain k where k: "k < length (cdb_servers (cw_db w))" "b = cdb_servers ?db ! k"
    by (auto simp: in_set_conv_nth po(1))
  let ?b = "cdb_servers (cw_db w) ! k"
  have bk: "srv_sid b = srv_sid ?b" "target_of b = target_of ?b" "srv_cluster_ref b = srv_cluster_ref ?b"
      "srv_intent b = srv_intent ?b"
    using k by (simp_all add: po(2))
  have acc: "accepts net (target_of b) ''promote''" using assms(19) k(1) by (simp add: bk(2))
  have cl: "distinct (map cl_cid (cdb_clusters ?db))" "c \<in> set (cdb_clusters ?db)" "srv_sid ?p \<noteq> []"
    using assms(3,4,9) by (simp_all only: po(5) keep(1) not_False_eq_True)
  have W: "cw_db ?w = ?db" by simp
  have "active_of (cw_db (run_failover J net env ?w)) (cl_cid c) = Some (Some (srv_sid b)) \<and>
    fenced_in (cw_db (run_failover J net env ?w)) (srv_sid ?p) \<and>
    (srv_base_url b @ ''/mgmt/promote'', srv_token b, EmptyBody) \<in> set (cw_sent (run_failover J net env ?w))"
    by (rule run_failover_promotes [of env ?w c ?p b, unfolded W,
        OF assms(1) sids cl(1,2) pq(1) down(1) clp(2) cl(3) b(1) acc assms(5) refl pr])
  moreover have "srv_base_url b = srv_base_url ?b" "srv_token b = srv_token ?b"
    using arg_cong [OF bk(2), of tgt_base_url] arg_cong [OF bk(2), of tgt_token] by simp_all
  ultimately show ?thesis
    using b(2,3) bk k(1) keep(1) by (intro bexI [of _ ?b]) (simp_all add: poll_tick_def)
qed

lemma run_actions_refused: "snd (run_actions net env cid as w False) = False"
proof (induction as arbitrary: w)
  case (Cons a as)
  obtain w1 r where "send_command net env w (action_sid a) (action_cmd a) = (w1, r)" by force
  with Cons show ?case by (cases r) simp_all
qed simp

lemma record_event_events: "set (cdb_events db) \<subseteq> set (cdb_events (fst (record_event env db c k m)))"
  by (auto simp: record_event_def query_s_def split: option.split)

lemma log_failover_events: "set (cdb_events (cw_db w)) \<subseteq> set (cdb_events (cw_db (log_failover env c k m w)))"
  using record_event_events by (simp add: log_failover_def)

lemma fold_log_events: "set (cdb_events (cw_db w)) \<subseteq> set (cdb_events (cw_db (fold (log_failover env c k) ms w)))"
proof (induction ms arbitrary: w)
  case (Cons m ms)
  have "set (cdb_events (cw_db w)) \<subseteq> set (cdb_events (cw_db (log_failover env c k m w)))"
    by (rule log_failover_events)
  also have "\<dots> \<subseteq> set (cdb_events (cw_db (fold (log_failover env c k) (m # ms) w)))" using Cons by simp
  finally show ?case .
qed simp

lemma run_actions_events:
  "set (cdb_events (cw_db w)) \<subseteq> set (cdb_events (cw_db (fst (run_actions net env cid as w ok))))"
proof (induction as arbitrary: w ok)
  case (Cons a as)
  obtain w1 r where s: "send_command net env w (action_sid a) (action_cmd a) = (w1, r)" by force
  then have db: "cw_db w1 = cw_db w" by (metis fst_conv send_command_db)
  show ?case
  proof (cases r)
    case (Inl e)
    let ?w = "log_failover env (Some cid) ''error'' (action_cmd a @ '' '' @ action_sid a @ '' failed: '' @ e) w1"
    have "set (cdb_events (cw_db w)) \<subseteq> set (cdb_events (cw_db ?w))" using log_failover_events db by metis
    also have "\<dots> \<subseteq> set (cdb_events (cw_db (fst (run_actions net env cid as ?w (ok \<and> \<not> is_promote a)))))" by (rule Cons.IH)
    finally show ?thesis by (simp add: s Inl)
  next
    case (Inr u)
    then show ?thesis using Cons.IH [of w1 ok] by (simp add: s db)
  qed
qed simp

text \<open>
  \<^bold>\<open>C25.\<close> A promotion the server refuses, or that does not reach it, changes nothing: clusters and
  servers stay as they were, and the failure is recorded as an event.
\<close>

theorem refused_promotion_changes_nothing:
  assumes "fd_actions d = Promote b # as" and "\<forall>q. ce_fails env q = None"
    and "send_command net env w b ''promote'' = (w1, Inl e)"
  shows "cdb_clusters (cw_db (carry_out net env cid d w)) = cdb_clusters (cw_db w) \<and>
    cdb_servers (cw_db (carry_out net env cid d w)) = cdb_servers (cw_db w) \<and>
    (\<exists>ev \<in> set (cdb_events (cw_db (carry_out net env cid d w))).
       ev_kind ev = ''error'' \<and> ev_message ev = ''promote '' @ b @ '' failed: '' @ e)"
proof -
  have ne: "\<not> decision_is_empty d" using assms(1) by (simp add: decision_is_empty_def)
  let ?m = "''promote'' @ '' '' @ b @ '' failed: '' @ e"
  let ?w = "log_failover env (Some cid) ''error'' ?m w1"
  obtain w2 ok where r: "run_actions net env cid (fd_actions d) w True = (w2, ok)" by force
  have r2: "run_actions net env cid as ?w False = (w2, ok)" using assms(1,3) r by simp
  then have "\<not> ok" using run_actions_refused [of net env cid as ?w] by simp
  then have co: "carry_out net env cid d w = fold (log_failover env (Some cid) ''failover'') (fd_log d) w2"
    by (simp add: carry_out_unfold [OF ne r])
  have "\<exists>ev \<in> set (cdb_events (cw_db ?w)). ev_kind ev = ''error'' \<and> ev_message ev = ?m"
    using assms(2) by (simp add: log_failover_def record_event_def)
  moreover have "set (cdb_events (cw_db ?w)) \<subseteq> set (cdb_events (cw_db w2))"
    using run_actions_events [of ?w net env cid as False] unfolding r2 by simp
  moreover have "set (cdb_events (cw_db w2)) \<subseteq> set (cdb_events (cw_db (carry_out net env cid d w)))"
    unfolding co by (rule fold_log_events)
  ultimately have "\<exists>ev \<in> set (cdb_events (cw_db (carry_out net env cid d w))). ev_kind ev = ''error'' \<and> ev_message ev = ?m"
    by blast
  then show ?thesis using run_actions_keeps [OF r] by (simp add: co)
qed


section \<open>Witnesses\<close>

text \<open>The first server does not answer, the others do; commands are accepted with \<open>status\<close>.\<close>

definition demo_net :: "nat \<Rightarrow> demo_value center_net" where
  "demo_net status = \<lparr>n_get = (\<lambda>k _ _. if k = 0 then Inl ''timeout'' else Inr (DStr [])),
     n_post = (\<lambda>_ _ _ _. Inr (status, ''{}''))\<rparr>"

definition demo_srv :: "string \<Rightarrow> string \<Rightarrow> nat \<Rightarrow> server_rec" where
  "demo_srv sid i n =
     (new_server (demo_center_env 1) sid sid (''http://'' @ sid) ''t'' (Some ''c''))\<lparr>srv_intent := i, srv_failures := n\<rparr>"

definition demo_cluster_rec :: cluster_rec where
  "demo_cluster_rec =
     \<lparr>cl_cid = ''c'', cl_name = ''lan'', cl_created_at = [], cl_auto_failover = True, cl_failure_threshold = 3,
      cl_active_primary = Some ''a'', cl_dns_zone = None, cl_dns_name = None, cl_dns_ttl = 60\<rparr>"

definition demo_world :: "server_rec list \<Rightarrow> center_world" where
  "demo_world ss =
     \<lparr>cw_db = \<lparr>cdb_clusters = [demo_cluster_rec], cdb_servers = ss, cdb_events = [], cdb_leases = []\<rparr>, cw_sent = []\<rparr>"

lemmas demo_center_defs = demo_net_def demo_srv_def demo_cluster_rec_def demo_world_def new_server_def

lemma parse_standby: "parse_intent ''standby'' = Some StandbyIntent"
  by code_simp

lemma failover_tick_promotes_witness:
  "active_of (cw_db (poll_tick demo_json (demo_net 200) (demo_center_env 1) True
     (demo_world [demo_srv ''a'' ''primary'' 2, demo_srv ''b'' ''standby'' 0]))) ''c'' = Some (Some ''b'')"
proof -
  let ?a = "demo_srv ''a'' ''primary'' 2" and ?b = "demo_srv ''b'' ''standby'' 0"
  have "parse_intent ''primary'' = Some PrimaryIntent" by code_simp
  moreover have "\<exists>b \<in> set (cdb_servers (cw_db (demo_world [?a, ?b]))). srv_cluster_ref b = Some (cl_cid demo_cluster_rec) \<and>
    parse_intent (srv_intent b) = Some StandbyIntent \<and>
    active_of (cw_db (poll_tick demo_json (demo_net 200) (demo_center_env 1) True (demo_world [?a, ?b]))) (cl_cid demo_cluster_rec)
      = Some (Some (srv_sid b)) \<and>
    fenced_in (cw_db (poll_tick demo_json (demo_net 200) (demo_center_env 1) True (demo_world [?a, ?b]))) (srv_sid ?a) \<and>
    (srv_base_url b @ ''/mgmt/promote'', srv_token b, EmptyBody) \<in>
      set (cw_sent (poll_tick demo_json (demo_net 200) (demo_center_env 1) True (demo_world [?a, ?b])))"
    by (rule failover_tick_promotes [where i = 0 and j = 1 and p = ?a and q = ?b and e = "''timeout''" and h = "DStr []"])
      (simp_all add: demo_center_defs cluster_threshold_def parse_standby accepts_def is_2xx_def)
  ultimately show ?thesis
    by (auto simp: demo_world_def) (simp_all add: demo_srv_def new_server_def demo_cluster_rec_def)
qed

lemma refused_promotion_changes_nothing_witness:
  "cdb_clusters (cw_db (carry_out (demo_net 500) (demo_center_env 1) ''c''
     (default_decision\<lparr>fd_actions := [Promote ''a''], fd_new_active := Some ''a''\<rparr>) (demo_world [demo_srv ''a'' [] 0])))
   = [demo_cluster_rec]"
proof -
  let ?w = "demo_world [demo_srv ''a'' [] 0]"
  obtain w1 e where s: "send_command (demo_net 500) (demo_center_env 1) ?w ''a'' ''promote'' = (w1, Inl e)"
    by (simp add: send_command_def get_target_def post_command_def is_2xx_def demo_center_defs)
  have "cdb_clusters (cw_db (carry_out (demo_net 500) (demo_center_env 1) ''c''
     (default_decision\<lparr>fd_actions := [Promote ''a''], fd_new_active := Some ''a''\<rparr>) ?w)) = cdb_clusters (cw_db ?w)"
    using refused_promotion_changes_nothing [OF _ _ s,
        of "default_decision\<lparr>fd_actions := [Promote ''a''], fd_new_active := Some ''a''\<rparr>" "[]" "''c''"]
    by simp
  then show ?thesis by (simp add: demo_world_def)
qed


end
