(* ===== verification/Center_Api.thy ===== *)
theory Center_Api
  imports Center_System Rust_Net
begin

unbundle bit_operations_syntax

text \<open>
  The HTTP API of the control plane, \<^verbatim>\<open>magnetite-center/src/api.rs\<close>: the bearer check and one
  definition per handler, with the routing as a datatype of requests. A request carries the
  decoded body; a body that \<^verbatim>\<open>axum\<close> cannot decode is rejected before the handler runs. \<open>hdr\<close> is the text of the
  authorization header, None when it is absent or not printable ASCII.
\<close>

section \<open>Authorization\<close>

definition as_bytes :: "string \<Rightarrow> u8 list" where
  "as_bytes s = map (\<lambda>c. word_of_nat (byte_of c)) s"

definition authorized :: "string option \<Rightarrow> string \<Rightarrow> bool" where
  "authorized hdr expected =
     (case hdr of
        None \<Rightarrow> False
      | Some auth \<Rightarrow>
          (case strip_prefix ''Bearer '' auth of
             None \<Rightarrow> False
           | Some token \<Rightarrow>
               length (as_bytes token) = length (as_bytes expected) \<and>
               foldl (\<lambda>acc (x, y). acc OR (x XOR y)) 0 (zip (as_bytes token) (as_bytes expected)) = 0))"

section \<open>Requests and responses\<close>

datatype api_request =
  ListClusters | CreateCluster string | ListServers
| RegisterServer string string string "string option" | DeleteServer string
| RoleChange string "string option" string | SetIntent string string
| SetFailoverPolicy string bool "nat option"
| SetDnsPolicy string "string option" "string option" "nat option"
| SetDnsTarget string "string option" | ListEvents | ApiStatus

datatype api_response =
  Unauthorized | BadRequest string | ServerError string | NotFoundResp string
| Clusters "cluster_rec list" | CreatedCluster cluster_rec | Servers "managed_server list"
| CreatedServer managed_server | NoContent | Relayed nat string | BadGateway string
| IntentSet string string | PolicySet string bool nat
| DnsPolicySet string "string option" "string option" nat | DnsTargetSet string "string option"
| Events "event_rec list"
| StatusResp "cluster_rec list" "managed_server list" "event_rec list" bool "leader_info option"

record api_state =
  as_admin_token :: string
  as_center_id :: string
  as_is_leader :: bool

type_synonym api_result = "center_world \<times> api_response"

definition with_db :: "center_world \<Rightarrow> center_db \<times> 'a \<Rightarrow> ('a \<Rightarrow> api_response) \<Rightarrow> api_result" where
  "with_db w p f = (case p of (db, r) \<Rightarrow> (w\<lparr>cw_db := db\<rparr>, f r))"

section \<open>Handlers\<close>

definition api_list_clusters :: "center_env \<Rightarrow> center_world \<Rightarrow> api_result" where
  "api_list_clusters env w =
     (w, case list_clusters env (cw_db w) of Inr cs \<Rightarrow> Clusters cs | Inl e \<Rightarrow> ServerError e)"

definition api_create_cluster :: "center_env \<Rightarrow> center_world \<Rightarrow> string \<Rightarrow> api_result" where
  "api_create_cluster env w name =
     (if trim name = [] then (w, BadRequest ''name must not be empty'')
      else with_db w (create_cluster env (cw_db w) (trim name))
        (\<lambda>r. case r of Inr c \<Rightarrow> CreatedCluster c | Inl e \<Rightarrow> ServerError e))"

definition api_list_servers :: "center_env \<Rightarrow> (string \<Rightarrow> bool) \<Rightarrow> center_world \<Rightarrow> api_result" where
  "api_list_servers env valid w =
     (w, case list_servers env valid (cw_db w) of Inr ss \<Rightarrow> Servers ss | Inl e \<Rightarrow> ServerError e)"

definition non_empty :: "string option \<Rightarrow> string option" where
  "non_empty x = (case x of Some s \<Rightarrow> if s = [] then None else Some s | None \<Rightarrow> None)"

definition api_register_server ::
  "center_env \<Rightarrow> (string \<Rightarrow> bool) \<Rightarrow> center_world \<Rightarrow> string \<Rightarrow> string \<Rightarrow> string \<Rightarrow> string option \<Rightarrow> api_result" where
  "api_register_server env valid w name url tok cluster =
     (if trim name = [] then (w, BadRequest ''name must not be empty'')
      else if \<not> (starts_with url ''http://'' \<or> starts_with url ''https://'')
      then (w, BadRequest ''base_url must start with http:// or https://'')
      else if trim tok = [] then (w, BadRequest ''token must not be empty'')
      else with_db w (register_server env valid (cw_db w) (trim name) (trim url) (trim tok) (non_empty cluster))
        (\<lambda>r. case r of Inr s \<Rightarrow> CreatedServer s | Inl e \<Rightarrow> BadRequest e))"

definition api_delete_server :: "center_env \<Rightarrow> center_world \<Rightarrow> string \<Rightarrow> api_result" where
  "api_delete_server env w sid =
     with_db w (delete_server env (cw_db w) sid)
       (\<lambda>r. case r of Inr True \<Rightarrow> NoContent | Inr False \<Rightarrow> NotFoundResp ''no such server''
             | Inl e \<Rightarrow> ServerError e)"

text \<open>\<open>domain\<close> is the text of the domain selector when the body is an object that has one.\<close>

definition forward_role_change ::
  "'j center_net \<Rightarrow> center_env \<Rightarrow> center_world \<Rightarrow> string \<Rightarrow> string option \<Rightarrow> string \<Rightarrow> api_result" where
  "forward_role_change net env w sid domain act =
     (case get_target env (cw_db w) sid of
        Inl e \<Rightarrow> (w, ServerError e)
      | Inr None \<Rightarrow> (w, NotFoundResp ''no such server'')
      | Inr (Some t) \<Rightarrow>
          (let forwarded = (case domain of Some d \<Rightarrow> DomainBody d | None \<Rightarrow> EmptyBody)
           in case post_command net w (tgt_base_url t @ ''/mgmt/'' @ act) (tgt_token t) forwarded of
                (w1, Inl e) \<Rightarrow> (w1, BadGateway (''could not reach server: '' @ e))
              | (w1, Inr (status, body)) \<Rightarrow>
                  ((if act = ''promote'' \<and> domain = None \<and> is_2xx status then
                      (case server_cluster env (cw_db w1) sid of
                         Inr (Some cid) \<Rightarrow>
                           steer_dns net env cid
                             (w1\<lparr>cw_db := fst (set_active_primary env (cw_db w1) cid (Some sid))\<rparr>)
                       | _ \<Rightarrow> w1)
                    else w1),
                   Relayed (if 100 \<le> status \<and> status < 1000 then status else 502) body)))"

definition api_set_intent :: "center_env \<Rightarrow> center_world \<Rightarrow> string \<Rightarrow> string \<Rightarrow> api_result" where
  "api_set_intent env w sid s =
     (case parse_intent s of
        None \<Rightarrow> (w, BadRequest ''intent must be primary, standby, or unset'')
      | Some i \<Rightarrow>
          with_db w (set_intent env (cw_db w) sid i)
            (\<lambda>r. case r of Inr True \<Rightarrow> IntentSet sid (intent_as_str i)
                  | Inr False \<Rightarrow> NotFoundResp ''no such server'' | Inl e \<Rightarrow> ServerError e))"

definition api_set_failover_policy :: "center_env \<Rightarrow> center_world \<Rightarrow> string \<Rightarrow> bool \<Rightarrow> nat option \<Rightarrow> api_result" where
  "api_set_failover_policy env w cid auto thr =
     (let n = (case thr of Some n \<Rightarrow> n | None \<Rightarrow> 3)
      in with_db w (set_failover_policy env (cw_db w) cid auto n)
           (\<lambda>r. case r of Inr True \<Rightarrow> PolicySet cid auto (max n 1)
                 | Inr False \<Rightarrow> NotFoundResp ''no such cluster'' | Inl e \<Rightarrow> ServerError e))"

definition clean :: "string option \<Rightarrow> string option" where
  "clean x = non_empty (map_option trim x)"

definition api_set_dns_policy ::
  "center_env \<Rightarrow> center_world \<Rightarrow> string \<Rightarrow> string option \<Rightarrow> string option \<Rightarrow> nat option \<Rightarrow> api_result" where
  "api_set_dns_policy env w cid zone name ttl =
     (let t = max (case ttl of Some n \<Rightarrow> n | None \<Rightarrow> 60) 1
      in with_db w (set_dns_policy env (cw_db w) cid (clean zone) (clean name) t)
           (\<lambda>r. case r of Inr True \<Rightarrow> DnsPolicySet cid (clean zone) (clean name) t
                 | Inr False \<Rightarrow> NotFoundResp ''no such cluster'' | Inl e \<Rightarrow> ServerError e))"

definition api_set_dns_target :: "center_env \<Rightarrow> center_world \<Rightarrow> string \<Rightarrow> string option \<Rightarrow> api_result" where
  "api_set_dns_target env w sid ip =
     (case clean ip of
        Some v \<Rightarrow>
          if parse_ip v = None then (w, BadRequest (''invalid ip '' @ CHR 0x27 # v @ [CHR 0x27]))
          else with_db w (set_dns_target env (cw_db w) sid (Some v))
            (\<lambda>r. case r of Inr True \<Rightarrow> DnsTargetSet sid (Some v)
                  | Inr False \<Rightarrow> NotFoundResp ''no such server'' | Inl e \<Rightarrow> ServerError e)
      | None \<Rightarrow>
          with_db w (set_dns_target env (cw_db w) sid None)
            (\<lambda>r. case r of Inr True \<Rightarrow> DnsTargetSet sid None
                  | Inr False \<Rightarrow> NotFoundResp ''no such server'' | Inl e \<Rightarrow> ServerError e))"

definition api_list_events :: "center_env \<Rightarrow> center_world \<Rightarrow> api_result" where
  "api_list_events env w =
     (w, case list_events env (cw_db w) 100 of Inr es \<Rightarrow> Events es | Inl e \<Rightarrow> ServerError e)"

definition api_status :: "center_env \<Rightarrow> (string \<Rightarrow> bool) \<Rightarrow> api_state \<Rightarrow> center_world \<Rightarrow> api_result" where
  "api_status env valid st w =
     (w, case list_clusters env (cw_db w) of
           Inl e \<Rightarrow> ServerError e
         | Inr cs \<Rightarrow>
             (case list_servers env valid (cw_db w) of
                Inl e \<Rightarrow> ServerError e
              | Inr ss \<Rightarrow>
                  (case list_events env (cw_db w) 50 of
                     Inl e \<Rightarrow> ServerError e
                   | Inr es \<Rightarrow>
                       StatusResp cs ss es (as_is_leader st)
                         (ok_opt (current_leader env (cw_db w) (as_center_id st))))))"

fun route ::
  "'j center_net \<Rightarrow> center_env \<Rightarrow> (string \<Rightarrow> bool) \<Rightarrow> api_state \<Rightarrow> center_world \<Rightarrow> api_request \<Rightarrow> api_result" where
  "route net env valid st w ListClusters = api_list_clusters env w"
| "route net env valid st w (CreateCluster n) = api_create_cluster env w n"
| "route net env valid st w ListServers = api_list_servers env valid w"
| "route net env valid st w (RegisterServer n u t c) = api_register_server env valid w n u t c"
| "route net env valid st w (DeleteServer i) = api_delete_server env w i"
| "route net env valid st w (RoleChange i d a) = forward_role_change net env w i d a"
| "route net env valid st w (SetIntent i s) = api_set_intent env w i s"
| "route net env valid st w (SetFailoverPolicy i a n) = api_set_failover_policy env w i a n"
| "route net env valid st w (SetDnsPolicy i z n t) = api_set_dns_policy env w i z n t"
| "route net env valid st w (SetDnsTarget i p) = api_set_dns_target env w i p"
| "route net env valid st w ListEvents = api_list_events env w"
| "route net env valid st w ApiStatus = api_status env valid st w"

definition api_call ::
  "'j center_net \<Rightarrow> center_env \<Rightarrow> (string \<Rightarrow> bool) \<Rightarrow> api_state \<Rightarrow> string option \<Rightarrow> center_world \<Rightarrow> api_request
   \<Rightarrow> api_result" where
  "api_call net env valid st hdr w req =
     (if \<not> authorized hdr (as_admin_token st) then (w, Unauthorized) else route net env valid st w req)"

section \<open>The bearer check is equality\<close>

lemma word_of_byte_inj: "(word_of_nat (byte_of a) :: u8) = word_of_nat (byte_of b) \<longleftrightarrow> a = b"
proof -
  have "unat (word_of_nat (byte_of c) :: u8) = byte_of c" for c
    using byte_of_less [of c] by (simp add: unsigned_of_nat take_bit_nat_eq_self)
  then show ?thesis by (metis byte_of_inj)
qed

lemma as_bytes_inj: "as_bytes a = as_bytes b \<longleftrightarrow> a = b"
  by (simp add: as_bytes_def inj_map_eq_map inj_def word_of_byte_inj)

lemma or_zero_iff: "a OR b = 0 \<longleftrightarrow> a = 0 \<and> b = 0" for a b :: "'a::len word"
  by (auto simp: bit_eq_iff bit_or_iff)

lemma xor_zero_iff: "a XOR b = 0 \<longleftrightarrow> a = b" for a b :: "'a::len word"
  by (auto simp: bit_eq_iff bit_xor_iff)

lemma fold_diff_zero:
  "length xs = length ys \<Longrightarrow>
   foldl (\<lambda>acc (x, y). acc OR (x XOR y)) c (zip xs ys) = 0 \<longleftrightarrow> c = 0 \<and> xs = ys" for c :: u8
proof (induction xs ys arbitrary: c rule: list_induct2)
  case (Cons x xs y ys)
  show ?case by (simp add: Cons.IH or_zero_iff xor_zero_iff)
qed simp

text \<open>
  \<^bold>\<open>C26.\<close> The constant-time comparison of the bearer token is equality: a header is accepted exactly
  when it is \<^verbatim>\<open>Bearer\<close>, a space, and the configured token.
\<close>

theorem authorized_iff: "authorized hdr tok \<longleftrightarrow> hdr = Some (''Bearer '' @ tok)"
proof (cases hdr)
  case (Some auth)
  have acc: "authorized (Some (''Bearer '' @ t)) tok \<longleftrightarrow> t = tok" for t
  proof -
    have "strip_prefix ''Bearer '' (''Bearer '' @ t) = Some t" by (simp add: strip_prefix_def)
    moreover have "length (as_bytes t) = length (as_bytes tok) \<and>
        foldl (\<lambda>acc (x, y). acc OR (x XOR y)) 0 (zip (as_bytes t) (as_bytes tok)) = 0 \<longleftrightarrow> t = tok"
      using fold_diff_zero [of "as_bytes t" "as_bytes tok" 0] as_bytes_inj [of t tok] by auto
    ultimately show ?thesis unfolding authorized_def option.case by simp
  qed
  show ?thesis
  proof (cases "prefix ''Bearer '' auth")
    case True
    then obtain t where "auth = ''Bearer '' @ t" by (auto simp: prefix_def)
    with Some acc [of t] show ?thesis by simp
  next
    case False
    then have "strip_prefix ''Bearer '' auth = None" by (simp add: strip_prefix_def)
    moreover have "auth \<noteq> ''Bearer '' @ tok" using False by (auto simp: prefix_def)
    ultimately show ?thesis using Some by (simp add: authorized_def)
  qed
qed (simp add: authorized_def)

section \<open>Manual promotion\<close>

text \<open>
  \<^bold>\<open>C27.\<close> A promote or demote forwarded to a server makes it the active primary of its cluster exactly
  when it is a promotion of the whole node that the server answered with success; a demotion, a
  promotion of one domain and a failed call leave the record as it was.
\<close>

theorem manual_promote_records:
  assumes "hdr = Some (''Bearer '' @ as_admin_token st)" and "\<forall>q. ce_fails env q = None"
    and "List.find (\<lambda>s. srv_sid s = sid) (cdb_servers (cw_db w)) = Some s" and "srv_cluster_ref s = Some cid"
    and "find_cluster (cw_db w) cid = Some c"
    and "n_post net (length (cw_sent w)) (srv_base_url s @ ''/mgmt/'' @ act) (srv_token s)
           (case sel of Some d \<Rightarrow> DomainBody d | None \<Rightarrow> EmptyBody) = r"
  shows "active_of (cw_db (fst (api_call net env valid st hdr w (RoleChange sid sel act)))) cid =
    (if act = ''promote'' \<and> sel = None \<and> (\<exists>n b. r = Inr (n, b) \<and> is_2xx n) then Some (Some sid)
     else Some (cl_active_primary c))"
proof -
  have "authorized hdr (as_admin_token st)"
    using assms(1) fold_diff_zero [of "as_bytes (as_admin_token st)" "as_bytes (as_admin_token st)" 0]
    by (simp add: authorized_def strip_prefix_def)
  then have call: "api_call net env valid st hdr w (RoleChange sid sel act) = forward_role_change net env w sid sel act"
    by (simp add: api_call_def)
  have act0: "active_of (cw_db w) cid = Some (cl_active_primary c)" using assms(5) by (simp add: active_of_def)
  have t: "get_target env (cw_db w) sid = Inr (Some (target_of s))"
    and sc: "server_cluster env (cw_db w) sid = Inr (Some cid)"
    using assms(2,3,4) by (simp_all add: get_target_def server_cluster_def get_target_record_def)
  let ?db = "fst (set_active_primary env (cw_db w) cid (Some sid))"
  have set: "active_of (cw_db (steer_dns net env cid x)) cid = Some (Some sid)" if "cw_db x = ?db" for x
    using assms(2,5) active_of_cong [of "cw_db (steer_dns net env cid x)" ?db cid] that
    by (simp add: active_of_update)
  show ?thesis
  proof (cases r)
    case (Inl e)
    then show ?thesis
      using assms(6) act0 by (simp add: call forward_role_change_def t post_command_def Let_def)
  next
    case (Inr p)
    then show ?thesis
      using assms(6) act0 set by (cases p) (auto simp: call forward_role_change_def t sc post_command_def Let_def)
  qed
qed

lemma manual_promote_records_witness:
  "active_of (cw_db (fst (api_call (demo_net 200) (demo_center_env 1) (\<lambda>_. True)
      \<lparr>as_admin_token = ''k'', as_center_id = ''A'', as_is_leader = True\<rparr> (Some ''Bearer k'')
      (demo_world [demo_srv ''b'' ''standby'' 0]) (RoleChange ''b'' None ''promote'')))) ''c'' = Some (Some ''b'')"
proof -
  let ?s = "demo_srv ''b'' ''standby'' 0"
  show ?thesis
    by (subst manual_promote_records [where s = ?s and c = demo_cluster_rec and r = "Inr (200, ''{}'')"])
      (simp_all add: demo_center_defs find_cluster_def is_2xx_def)
qed

end
