(* ===== verification/Dns_Model.thy ===== *)
theory Dns_Model
  imports Rust_Net Rust_Json
begin

text \<open>
  The DNS data and its validation, \<^verbatim>\<open>magnetite-core/src/domains/dns/model.rs\<close> and \<^verbatim>\<open>validate.rs\<close>. The
  type-specific payload of a record is a JSON value of an arbitrary type.
\<close>

section \<open>Data\<close>

record soa =
  soa_mname :: string
  soa_rname :: string
  soa_serial :: u32
  soa_refresh :: u32
  soa_retry :: u32
  soa_expire :: u32
  soa_minimum :: u32

definition default_soa :: soa where
  "default_soa = \<lparr>soa_mname = [], soa_rname = [], soa_serial = 1, soa_refresh = 3600, soa_retry = 900,
     soa_expire = 604800, soa_minimum = 86400\<rparr>"

datatype zone_role = PrimaryZone | SecondaryZone

record zone_transfer_state =
  zt_last_serial :: u32
  zt_last_attempt :: time
  zt_last_ok :: bool
  zt_last_error :: "string option"
  zt_last_success :: "time option"

record zone =
  zone_id :: string
  zone_created_at :: time
  zone_updated_at :: time
  zone_created_by :: string
  zone_name :: string
  zone_soa :: soa
  zone_enabled :: bool
  zone_dnssec_enabled :: bool
  zone_nsec3_enabled :: bool
  zone_role_of :: zone_role
  zone_allow_transfer :: "string list"
  zone_also_notify :: "string list"
  zone_notify_enabled :: bool
  zone_primaries :: "string list"
  zone_tsig_key_name :: "string option"
  zone_transfer_state_of :: "zone_transfer_state option"

datatype record_type = TypeA | TypeAaaa | TypeCname | TypeMx | TypeTxt | TypeNs | TypePtr | TypeSrv | TypeCaa

definition all_record_types :: "record_type list" where
  "all_record_types = [TypeA, TypeAaaa, TypeCname, TypeMx, TypeTxt, TypeNs, TypePtr, TypeSrv, TypeCaa]"

fun record_type_as_str :: "record_type \<Rightarrow> string" where
  "record_type_as_str TypeA = ''A''"
| "record_type_as_str TypeAaaa = ''AAAA''"
| "record_type_as_str TypeCname = ''CNAME''"
| "record_type_as_str TypeMx = ''MX''"
| "record_type_as_str TypeTxt = ''TXT''"
| "record_type_as_str TypeNs = ''NS''"
| "record_type_as_str TypePtr = ''PTR''"
| "record_type_as_str TypeSrv = ''SRV''"
| "record_type_as_str TypeCaa = ''CAA''"

definition record_type_from_str :: "string \<Rightarrow> record_type option" where
  "record_type_from_str v = List.find (\<lambda>t. eq_ignore_ascii_case (record_type_as_str t) v) all_record_types"

record 'j dns_record =
  rec_id :: string
  rec_created_at :: time
  rec_updated_at :: time
  rec_created_by :: string
  rec_zone :: string
  rec_name :: string
  rec_ttl :: u32
  rec_type :: record_type
  rec_data :: 'j
  rec_enabled :: bool

datatype rpz_act = RpzNxdomain | RpzNodata | RpzRedirect | RpzDrop

fun rpz_act_as_str :: "rpz_act \<Rightarrow> string" where
  "rpz_act_as_str RpzNxdomain = ''nxdomain''"
| "rpz_act_as_str RpzNodata = ''nodata''"
| "rpz_act_as_str RpzRedirect = ''redirect''"
| "rpz_act_as_str RpzDrop = ''drop''"

definition rpz_act_from_str :: "string \<Rightarrow> rpz_act option" where
  "rpz_act_from_str v =
     (let t = to_ascii_lowercase v in
      if t = ''nxdomain'' then Some RpzNxdomain
      else if t = ''nodata'' then Some RpzNodata
      else if t = ''redirect'' then Some RpzRedirect
      else if t = ''drop'' then Some RpzDrop
      else None)"

record rpz_rule =
  rpz_id :: string
  rpz_created_at :: time
  rpz_updated_at :: time
  rpz_created_by :: string
  rpz_domain :: string
  rpz_act_of :: rpz_act
  rpz_redirect_to :: "string option"
  rpz_enabled :: bool

record 'j geo_region =
  geo_region_name :: string
  geo_cidrs :: "string list"
  geo_data :: 'j

record 'j geo_rule =
  geo_id :: string
  geo_created_at :: time
  geo_updated_at :: time
  geo_created_by :: string
  geo_zone :: string
  geo_name :: string
  geo_record_type :: record_type
  geo_ttl :: u32
  geo_default_data :: 'j
  geo_regions :: "'j geo_region list"
  geo_enabled :: bool

section \<open>Validation\<close>

datatype dns_msg =
  MsgZoneName | MsgMname | MsgRname | MsgSoa | MsgRecordName | MsgA | MsgAaaa | MsgFqdn | MsgMx | MsgTxt
| MsgRecordValue | MsgRpzDomain | MsgRpzRedirect

definition normalize_name :: "string \<Rightarrow> string" where
  "normalize_name name = to_ascii_lowercase (trim_end_matches CHR ''.'' (trim name))"

definition is_label :: "string \<Rightarrow> bool" where
  "is_label l \<longleftrightarrow> l \<noteq> [] \<and> length l \<le> 63 \<and> hd l \<noteq> CHR ''-'' \<and> last l \<noteq> CHR ''-'' \<and>
     list_all (\<lambda>b. is_ascii_alphanumeric b \<or> b = CHR ''-'') l"

definition labels_ok :: "bool \<Rightarrow> string list \<Rightarrow> bool" where
  "labels_ok allow_wildcard ls =
     (case ls of
        [] \<Rightarrow> True
      | l # r \<Rightarrow> (allow_wildcard \<and> l = ''*'' \<or> is_label l) \<and> list_all is_label r)"

definition is_fqdn :: "string \<Rightarrow> bool \<Rightarrow> bool" where
  "is_fqdn name allow_wildcard \<longleftrightarrow>
     normalize_name name \<noteq> [] \<and> 2 \<le> length (split_on CHR ''.'' (normalize_name name)) \<and>
     labels_ok allow_wildcard (split_on CHR ''.'' (normalize_name name))"

definition check_zone_name :: "string \<Rightarrow> dns_msg + unit" where
  "check_zone_name name = (if is_fqdn name False then Inr () else Inl MsgZoneName)"

definition check_soa :: "soa \<Rightarrow> dns_msg + unit" where
  "check_soa s =
     (if \<not> is_fqdn (soa_mname s) False then Inl MsgMname
      else if CHR ''@'' \<in> set (soa_rname s) \<or> \<not> is_fqdn (soa_rname s) False then Inl MsgRname
      else if soa_refresh s = 0 \<or> soa_retry s = 0 \<or> soa_expire s \<le> soa_refresh s then Inl MsgSoa
      else Inr ())"

definition check_zone :: "zone \<Rightarrow> dns_msg + unit" where
  "check_zone z = try_r (check_zone_name (zone_name z)) (\<lambda>_. check_soa (zone_soa z))"

definition as_u64_lenient :: "'j json_api \<Rightarrow> 'j \<Rightarrow> nat option" where
  "as_u64_lenient J v =
     (case j_as_u64 J v of
        Some n \<Rightarrow> Some n
      | None \<Rightarrow> Option.bind (j_as_str J v) (\<lambda>s. parse_uint (2 ^ 64 - 1) (trim s)))"

definition normalize_record_data :: "'j json_api \<Rightarrow> record_type \<Rightarrow> 'j \<Rightarrow> 'j" where
  "normalize_record_data J t d =
     (if t = TypeMx then
        (case Option.bind (j_get J d ''preference'') (as_u64_lenient J) of
           Some n \<Rightarrow> j_set J d ''preference'' (j_of_u64 J n)
         | None \<Rightarrow> d)
      else d)"

definition check_fqdn_field :: "'j json_api \<Rightarrow> 'j \<Rightarrow> string \<Rightarrow> dns_msg + unit" where
  "check_fqdn_field J d key =
     (case data_str J d key of
        Some v \<Rightarrow> if is_fqdn v False then Inr () else Inl MsgFqdn
      | None \<Rightarrow> Inl MsgFqdn)"

fun check_record_data :: "'j json_api \<Rightarrow> record_type \<Rightarrow> 'j \<Rightarrow> dns_msg + unit" where
  "check_record_data J TypeA d =
     (case data_str J d ''address'' of
        Some a \<Rightarrow> if parse_ipv4 a \<noteq> None then Inr () else Inl MsgA
      | None \<Rightarrow> Inl MsgA)"
| "check_record_data J TypeAaaa d =
     (case data_str J d ''address'' of
        Some a \<Rightarrow> if parse_ipv6 a \<noteq> None then Inr () else Inl MsgAaaa
      | None \<Rightarrow> Inl MsgAaaa)"
| "check_record_data J TypeCname d = check_fqdn_field J d ''target''"
| "check_record_data J TypeNs d = check_fqdn_field J d ''nsdname''"
| "check_record_data J TypePtr d = check_fqdn_field J d ''ptrdname''"
| "check_record_data J TypeMx d =
     (if (case Option.bind (j_get J d ''preference'') (as_u64_lenient J) of Some n \<Rightarrow> n \<le> 65535 | None \<Rightarrow> False)
         \<and> (case data_str J d ''exchange'' of Some e \<Rightarrow> is_fqdn e False | None \<Rightarrow> False)
      then Inr () else Inl MsgMx)"
| "check_record_data J TypeTxt d =
     (case data_str J d ''text'' of
        Some t \<Rightarrow> if t \<noteq> [] then Inr () else Inl MsgTxt
      | None \<Rightarrow> Inl MsgTxt)"
| "check_record_data J TypeSrv d =
     (case data_str J d ''value'' of
        Some v \<Rightarrow> if trim v \<noteq> [] then Inr () else Inl MsgRecordValue
      | None \<Rightarrow> Inl MsgRecordValue)"
| "check_record_data J TypeCaa d =
     (case data_str J d ''value'' of
        Some v \<Rightarrow> if trim v \<noteq> [] then Inr () else Inl MsgRecordValue
      | None \<Rightarrow> Inl MsgRecordValue)"

definition check_record :: "'j json_api \<Rightarrow> string \<Rightarrow> 'j dns_record \<Rightarrow> dns_msg + unit" where
  "check_record J zname r =
     (let z = normalize_name zname; n = normalize_name (rec_name r)
      in if n \<noteq> z \<and> \<not> ends_with n (CHR ''.'' # z) then Inl MsgRecordName
         else check_record_data J (rec_type r) (rec_data r))"

definition check_rpz :: "rpz_rule \<Rightarrow> dns_msg + unit" where
  "check_rpz r =
     (if \<not> is_fqdn (rpz_domain r) True then Inl MsgRpzDomain
      else if rpz_act_of r = RpzRedirect then
        (case rpz_redirect_to r of
           Some t \<Rightarrow> if is_fqdn t False then Inr () else Inl MsgRpzRedirect
         | None \<Rightarrow> Inl MsgRpzRedirect)
      else Inr ())"

end
