(* ===== verification/Dns_Resolver.thy ===== *)
theory Dns_Resolver
  imports Dns_Model
begin

text \<open>
  Authoritative resolution, \<^verbatim>\<open>magnetite-dns/src/resolver.rs\<close>: the policy rules, the choice of the zone,
  wildcards, the bounded chase of CNAMEs, and the snapshot cache; and the region routing of
  \<^verbatim>\<open>geo.rs\<close>. The zones and records are a parameter: the database calls of \<^verbatim>\<open>load_snapshot\<close> are the functions
  \<open>list_zones\<close>, \<open>list_records\<close> and \<open>list_rpz\<close>.
\<close>

section \<open>Snapshots\<close>

record 'j zone_data =
  zd_zone :: zone
  zd_records :: "'j dns_record list"

record 'j snapshot =
  snap_zones :: "'j zone_data list"
  snap_rpz :: "rpz_rule list"

datatype query_type = QRecord record_type | QSoa | QAny | QOther

datatype rcode = NoError | NxDomain | Refused

record 'j resolution =
  res_rcode :: rcode
  res_authoritative :: bool
  res_drop :: bool
  res_from_rpz :: bool
  res_answers :: "'j dns_record list"
  res_soa_answer :: "(string \<times> soa) option"
  res_authority_soa :: "(string \<times> soa) option"

definition res_base :: "'j resolution" where
  "res_base = \<lparr>res_rcode = NoError, res_authoritative = False, res_drop = False, res_from_rpz = False,
     res_answers = [], res_soa_answer = None, res_authority_soa = None\<rparr>"

definition res_refused :: "'j resolution" where
  "res_refused = res_base\<lparr>res_rcode := Refused\<rparr>"

definition res_dropped :: "'j resolution" where
  "res_dropped = res_base\<lparr>res_drop := True\<rparr>"

definition res_of_answers :: "'j dns_record list \<Rightarrow> 'j resolution" where
  "res_of_answers rs = res_base\<lparr>res_authoritative := True, res_answers := rs\<rparr>"

definition res_negative :: "rcode \<Rightarrow> string \<Rightarrow> soa \<Rightarrow> 'j resolution" where
  "res_negative rc apex s =
     res_base\<lparr>res_rcode := rc, res_authoritative := True, res_authority_soa := Some (apex, s)\<rparr>"

text \<open>\<^verbatim>\<open>num_seconds\<close> truncates towards zero.\<close>

definition num_seconds :: "time \<Rightarrow> int" where
  "num_seconds d = (if 0 \<le> d then d div 1000000000 else - ((- d) div 1000000000))"

definition secondary_expired :: "time \<Rightarrow> zone \<Rightarrow> bool" where
  "secondary_expired now z =
     (if zone_role_of z \<noteq> SecondaryZone then False
      else (case Option.bind (zone_transfer_state_of z) zt_last_success of
              None \<Rightarrow> True
            | Some ts \<Rightarrow> num_seconds (now - ts) > int (unat (soa_expire (zone_soa z)))))"

fun load_zones ::
  "time \<Rightarrow> (string \<Rightarrow> 'e + 'j dns_record list) \<Rightarrow> zone list \<Rightarrow> 'e + 'j zone_data list" where
  "load_zones now list_records [] = Inr []"
| "load_zones now list_records (z # zs) =
     (if secondary_expired now z then load_zones now list_records zs
      else try_r (list_records (zone_id z)) (\<lambda>rs.
             try_r (load_zones now list_records zs) (\<lambda>zds. Inr (\<lparr>zd_zone = z, zd_records = rs\<rparr> # zds))))"

definition load_snapshot ::
  "time \<Rightarrow> ('e + zone list) \<Rightarrow> (string \<Rightarrow> 'e + 'j dns_record list) \<Rightarrow> ('e + rpz_rule list) \<Rightarrow> 'e + 'j snapshot" where
  "load_snapshot now list_zones list_records list_rpz =
     try_r list_zones (\<lambda>zs.
     try_r (load_zones now list_records zs) (\<lambda>zds.
     try_r list_rpz (\<lambda>rpz. Inr \<lparr>snap_zones = zds, snap_rpz = rpz\<rparr>)))"

text \<open>The cached snapshot with the time it was loaded; \<open>load\<close> is a rebuild from the store.\<close>

definition snapshot_ttl :: time where
  "snapshot_ttl = 2 * 1000000000"

definition snapshot_get ::
  "time \<Rightarrow> ('e + 's) \<Rightarrow> (time \<times> 's) option \<Rightarrow> (time \<times> 's) option \<times> ('e + 's)" where
  "snapshot_get now load c =
     (case c of
        Some (at, snap) \<Rightarrow>
          if now - at < snapshot_ttl then (c, Inr snap)
          else (case load of Inl e \<Rightarrow> (c, Inl e) | Inr s \<Rightarrow> (Some (now, s), Inr s))
      | None \<Rightarrow> (case load of Inl e \<Rightarrow> (c, Inl e) | Inr s \<Rightarrow> (Some (now, s), Inr s)))"

definition snapshot_invalidate :: "(time \<times> 's) option \<Rightarrow> (time \<times> 's) option" where
  "snapshot_invalidate c = None"

section \<open>Lookup\<close>

definition apex_of :: "'j zone_data \<Rightarrow> string" where
  "apex_of zd = normalize_name (zone_name (zd_zone zd))"

definition covers :: "string \<Rightarrow> string \<Rightarrow> bool" where
  "covers apex q \<longleftrightarrow> q = apex \<or> ends_with q (CHR ''.'' # apex)"

definition find_zone :: "'j zone_data list \<Rightarrow> string \<Rightarrow> 'j zone_data option" where
  "find_zone zs q =
     max_by_key (\<lambda>zd. length (apex_of zd))
       (filter (\<lambda>zd. covers (apex_of zd) q) (filter (\<lambda>zd. zone_enabled (zd_zone zd)) zs))"

definition records_at :: "'j zone_data \<Rightarrow> string \<Rightarrow> 'j dns_record list" where
  "records_at zd name = filter (\<lambda>r. rec_enabled r \<and> normalize_name (rec_name r) = name) (zd_records zd)"

text \<open>The base of a wildcard owner that covers the name.\<close>

definition wildcard_base :: "string \<Rightarrow> 'j dns_record \<Rightarrow> string option" where
  "wildcard_base q r =
     (if \<not> rec_enabled r then None
      else (case strip_prefix ''*.'' (normalize_name (rec_name r)) of
              Some base \<Rightarrow> if ends_with q (CHR ''.'' # base) then Some base else None
            | None \<Rightarrow> None))"

fun wildcard_best :: "string \<Rightarrow> 'j dns_record list \<Rightarrow> (nat \<times> string) option \<Rightarrow> (nat \<times> string) option" where
  "wildcard_best q [] best = best"
| "wildcard_best q (r # rs) best =
     wildcard_best q rs
       (case wildcard_base q r of
          None \<Rightarrow> best
        | Some base \<Rightarrow>
            (case best of
               None \<Rightarrow> Some (length base, normalize_name (rec_name r))
             | Some (l, _) \<Rightarrow> if l < length base then Some (length base, normalize_name (rec_name r)) else best))"

definition wildcard_at :: "'j zone_data \<Rightarrow> string \<Rightarrow> 'j dns_record list option" where
  "wildcard_at zd q =
     (case wildcard_best q (zd_records zd) None of
        None \<Rightarrow> None
      | Some (_, owner) \<Rightarrow>
          (let rs = map (\<lambda>r. r\<lparr>rec_name := q\<rparr>) (records_at zd owner)
           in if rs = [] then None else Some rs))"

text \<open>The records a chase appends after \<open>cname\<close>, at the given depth.\<close>

definition max_depth :: nat where
  "max_depth = 8"

function chase_cname ::
  "'j json_api \<Rightarrow> 'j zone_data list \<Rightarrow> 'j dns_record \<Rightarrow> record_type \<Rightarrow> nat \<Rightarrow> 'j dns_record list" where
  "chase_cname J zs cname rt depth =
     (if max_depth \<le> depth then []
      else (case data_str J (rec_data cname) ''target'' of
              None \<Rightarrow> []
            | Some target \<Rightarrow>
                (case find_zone zs (normalize_name target) of
                   None \<Rightarrow> []
                 | Some zd \<Rightarrow>
                     (case List.find (\<lambda>r. rec_type r = TypeCname) (records_at zd (normalize_name target)) of
                        Some next \<Rightarrow> next # chase_cname J zs next rt (depth + 1)
                      | None \<Rightarrow> filter (\<lambda>r. rec_type r = rt) (records_at zd (normalize_name target))))))"
  by pat_completeness auto
termination
  by (relation "measure (\<lambda>(J, zs, cname, rt, depth). max_depth - depth)") auto

declare chase_cname.simps [simp del]

section \<open>Policy\<close>

definition rpz_matches :: "string \<Rightarrow> string \<Rightarrow> bool" where
  "rpz_matches q pattern =
     (case strip_prefix ''*.'' (normalize_name pattern) of
        Some suff \<Rightarrow> q = suff \<or> ends_with q (CHR ''.'' # suff)
      | None \<Rightarrow> q = normalize_name pattern)"

definition rpz_action :: "rpz_rule list \<Rightarrow> string \<Rightarrow> (rpz_act \<times> string option) option" where
  "rpz_action rules q =
     map_option (\<lambda>r. (rpz_act_of r, rpz_redirect_to r))
       (max_by_key (\<lambda>r. length (trim_start_matches ''*.'' (normalize_name (rpz_domain r))))
         (filter (\<lambda>r. rpz_enabled r \<and> rpz_matches q (rpz_domain r)) rules))"

definition synth_cname :: "'j json_api \<Rightarrow> time \<Rightarrow> string \<Rightarrow> string \<Rightarrow> 'j dns_record" where
  "synth_cname J now q target =
     \<lparr>rec_id = [], rec_created_at = now, rec_updated_at = now, rec_created_by = ''rpz'', rec_zone = [],
      rec_name = q, rec_ttl = 60, rec_type = TypeCname,
      rec_data = j_object J [(''target'', j_of_str J (normalize_name target))], rec_enabled = True\<rparr>"

fun apply_rpz_inner ::
  "'j json_api \<Rightarrow> time \<Rightarrow> 'j snapshot \<Rightarrow> string \<Rightarrow> query_type \<Rightarrow> rpz_act \<Rightarrow> string option \<Rightarrow> 'j resolution" where
  "apply_rpz_inner J now snap q qt RpzNxdomain to = res_base\<lparr>res_rcode := NxDomain\<rparr>"
| "apply_rpz_inner J now snap q qt RpzNodata to = res_base"
| "apply_rpz_inner J now snap q qt RpzDrop to = res_dropped"
| "apply_rpz_inner J now snap q qt RpzRedirect to =
     (case to of
        None \<Rightarrow> res_base\<lparr>res_rcode := NxDomain\<rparr>
      | Some target \<Rightarrow>
          if trim target = [] then res_base\<lparr>res_rcode := NxDomain\<rparr>
          else
            (let cname = synth_cname J now q target
             in res_base\<lparr>res_answers := cname #
                  (case qt of
                     QRecord rt \<Rightarrow> if rt \<noteq> TypeCname then chase_cname J (snap_zones snap) cname rt 0 else []
                   | _ \<Rightarrow> [])\<rparr>))"

definition apply_rpz ::
  "'j json_api \<Rightarrow> time \<Rightarrow> 'j snapshot \<Rightarrow> string \<Rightarrow> query_type \<Rightarrow> rpz_act \<Rightarrow> string option \<Rightarrow> 'j resolution" where
  "apply_rpz J now snap q qt act to = (apply_rpz_inner J now snap q qt act to)\<lparr>res_from_rpz := True\<rparr>"

section \<open>Resolution\<close>

definition answer_at ::
  "'j json_api \<Rightarrow> 'j snapshot \<Rightarrow> 'j dns_record list \<Rightarrow> record_type \<Rightarrow> string \<Rightarrow> soa \<Rightarrow> 'j resolution" where
  "answer_at J snap rs rt apex s =
     (let exact = filter (\<lambda>r. rec_type r = rt) rs
      in if exact \<noteq> [] then res_of_answers exact
         else if rt \<noteq> TypeCname then
           (case List.find (\<lambda>r. rec_type r = TypeCname) rs of
              Some cname \<Rightarrow> res_of_answers (cname # chase_cname J (snap_zones snap) cname rt 0)
            | None \<Rightarrow> res_negative NoError apex s)
         else res_negative NoError apex s)"

definition resolve_in_zone ::
  "'j json_api \<Rightarrow> 'j snapshot \<Rightarrow> 'j zone_data \<Rightarrow> string \<Rightarrow> query_type \<Rightarrow> 'j resolution" where
  "resolve_in_zone J snap zd q qt =
     (let apex = apex_of zd; s = zone_soa (zd_zone zd); at = records_at zd q
      in if qt = QSoa \<and> q = apex
         then res_base\<lparr>res_authoritative := True, res_soa_answer := Some (apex, s)\<rparr>
         else if \<not> (q = apex \<or> at \<noteq> []) then
           (case wildcard_at zd q of
              Some ws \<Rightarrow>
                (case qt of
                   QRecord rt \<Rightarrow> answer_at J snap ws rt apex s
                 | QAny \<Rightarrow> res_of_answers ws
                 | _ \<Rightarrow> res_negative NoError apex s)
            | None \<Rightarrow> res_negative NxDomain apex s)
         else
           (case qt of
              QRecord rt \<Rightarrow> answer_at J snap at rt apex s
            | QAny \<Rightarrow> (res_of_answers at)\<lparr>res_soa_answer := (if q = apex then Some (apex, s) else None)\<rparr>
            | _ \<Rightarrow> res_negative NoError apex s))"

definition resolve_in :: "'j json_api \<Rightarrow> time \<Rightarrow> 'j snapshot \<Rightarrow> string \<Rightarrow> query_type \<Rightarrow> 'j resolution" where
  "resolve_in J now snap qname_raw qt =
     (let q = normalize_name qname_raw
      in case rpz_action (snap_rpz snap) q of
           Some (act, to) \<Rightarrow> apply_rpz J now snap q qt act to
         | None \<Rightarrow>
             (case find_zone (snap_zones snap) q of
                None \<Rightarrow> res_refused
              | Some zd \<Rightarrow> resolve_in_zone J snap zd q qt))"

section \<open>Region routing\<close>

definition cidr_contains :: "string \<Rightarrow> ip_addr \<Rightarrow> bool" where
  "cidr_contains cidr addr =
     (case split_once CHR ''/'' cidr of
        None \<Rightarrow> parse_ip cidr = Some addr
      | Some (net, pfx) \<Rightarrow>
          (case parse_uint (2 ^ 32 - 1) pfx of
             None \<Rightarrow> False
           | Some n \<Rightarrow>
               (case (parse_ip net, addr) of
                  (Some (V4 a), V4 c) \<Rightarrow> n \<le> 32 \<and> same_network n a c
                | (Some (V6 a), V6 c) \<Rightarrow> n \<le> 128 \<and> same_network n a c
                | _ \<Rightarrow> False)))"

definition resolve_geo :: "'j geo_rule list \<Rightarrow> ip_addr \<Rightarrow> (u32 \<times> 'j) option" where
  "resolve_geo rules ip =
     (case rules of
        [] \<Rightarrow> None
      | rule # _ \<Rightarrow>
          (case List.find (\<lambda>g. list_ex (\<lambda>c. cidr_contains c ip) (geo_cidrs g)) (geo_regions rule) of
             Some g \<Rightarrow> Some (geo_ttl rule, geo_data g)
           | None \<Rightarrow> Some (geo_ttl rule, geo_default_data rule)))"

definition geo_resolution :: "time \<Rightarrow> string \<Rightarrow> record_type \<Rightarrow> u32 \<Rightarrow> 'j \<Rightarrow> 'j resolution" where
  "geo_resolution now q rt ttl d =
     res_base\<lparr>res_authoritative := True, res_answers :=
       [\<lparr>rec_id = [], rec_created_at = now, rec_updated_at = now, rec_created_by = ''geodns'', rec_zone = [],
         rec_name = q, rec_ttl = ttl, rec_type = rt, rec_data = d, rec_enabled = True\<rparr>]\<rparr>"

section \<open>What the lookups find\<close>

lemma find_zone_None: "find_zone zs q = None \<longleftrightarrow> (\<forall>zd \<in> set zs. zone_enabled (zd_zone zd) \<longrightarrow> \<not> covers (apex_of zd) q)"
  by (auto simp: find_zone_def filter_empty_conv)

lemma find_zone_Some:
  assumes "find_zone zs q = Some zd"
  shows "zd \<in> set zs" and "zone_enabled (zd_zone zd)" and "covers (apex_of zd) q"
    and "\<And>z. \<lbrakk>z \<in> set zs; zone_enabled (zd_zone z); covers (apex_of z) q\<rbrakk> \<Longrightarrow> length (apex_of z) \<le> length (apex_of zd)"
  using max_by_key_in [OF assms [unfolded find_zone_def]] max_by_key_max [OF assms [unfolded find_zone_def]]
  by auto

definition wildcard_covers :: "string \<Rightarrow> 'j dns_record \<Rightarrow> bool" where
  "wildcard_covers q r \<longleftrightarrow>
     rec_enabled r \<and> (\<exists>base. normalize_name (rec_name r) = ''*.'' @ base \<and> ends_with q (CHR ''.'' # base))"

lemma strip_prefix_iff: "strip_prefix p s = Some t \<longleftrightarrow> s = p @ t"
  by (auto simp: strip_prefix_def prefix_def)

lemma wildcard_base_iff: "wildcard_base q r \<noteq> None \<longleftrightarrow> wildcard_covers q r"
  by (auto simp: wildcard_base_def wildcard_covers_def strip_prefix_def prefix_def split: option.splits)

lemma wildcard_best_None:
  "wildcard_best q rs best = None \<longleftrightarrow> best = None \<and> (\<forall>r \<in> set rs. wildcard_base q r = None)"
  by (induction rs arbitrary: best) (auto split: option.splits if_splits)

lemma wildcard_best_owner:
  "wildcard_best q rs best = Some (l, w) \<Longrightarrow>
   best = Some (l, w) \<or> (\<exists>r \<in> set rs. wildcard_base q r \<noteq> None \<and> w = normalize_name (rec_name r))"
proof (induction rs arbitrary: best)
  case (Cons r rs)
  show ?case
    using Cons.prems by (auto dest!: Cons.IH split: option.splits if_splits)
qed simp

lemma wildcard_at_None: "wildcard_at zd q = None \<longleftrightarrow> (\<forall>r \<in> set (zd_records zd). \<not> wildcard_covers q r)"
proof (cases "wildcard_best q (zd_records zd) None")
  case None
  then show ?thesis
    using wildcard_best_None [of q "zd_records zd" None] by (simp add: wildcard_at_def wildcard_base_iff [symmetric])
next
  case (Some p)
  obtain l w where p: "p = (l, w)" by force
  from wildcard_best_owner [OF Some [unfolded p]] obtain r
    where r: "r \<in> set (zd_records zd)" "wildcard_covers q r" "w = normalize_name (rec_name r)"
    using wildcard_base_iff by blast
  then have "r \<in> set (records_at zd w)" by (simp add: records_at_def wildcard_covers_def)
  then have "wildcard_at zd q \<noteq> None" using Some p by (auto simp: wildcard_at_def Let_def)
  then show ?thesis using r by auto
qed

lemma wildcard_at_records:
  "\<lbrakk>wildcard_at zd q = Some ws; r \<in> set ws\<rbrakk> \<Longrightarrow> \<exists>x \<in> set (zd_records zd). rec_enabled x \<and> r = x\<lparr>rec_name := q\<rparr>"
  by (fastforce simp: wildcard_at_def Let_def records_at_def split: option.splits if_splits)

section \<open>The chase\<close>

lemma chase_cname_cases:
  obtains (stop) "chase_cname J zs c rt depth = []"
  | (leaf) t zd where "find_zone zs (normalize_name t) = Some zd"
      and "chase_cname J zs c rt depth = filter (\<lambda>r. rec_type r = rt) (records_at zd (normalize_name t))"
  | (hop) t zd n where "\<not> max_depth \<le> depth" and "data_str J (rec_data c) ''target'' = Some t"
      and "find_zone zs (normalize_name t) = Some zd"
      and "List.find (\<lambda>r. rec_type r = TypeCname) (records_at zd (normalize_name t)) = Some n"
      and "chase_cname J zs c rt depth = n # chase_cname J zs n rt (depth + 1)"
proof (cases "max_depth \<le> depth")
  case True
  then show thesis by (intro stop) (simp add: chase_cname.simps)
next
  case False
  show thesis
  proof (cases "data_str J (rec_data c) ''target''")
    case None
    then show thesis by (intro stop) (simp add: chase_cname.simps)
  next
    case t: (Some t)
    show thesis
    proof (cases "find_zone zs (normalize_name t)")
      case None
      then show thesis using t by (intro stop) (simp add: chase_cname.simps)
    next
      case zd: (Some zd)
      show thesis
      proof (cases "List.find (\<lambda>r. rec_type r = TypeCname) (records_at zd (normalize_name t))")
        case None
        with zd t False show thesis by (intro leaf [OF zd]) (simp add: chase_cname.simps [of J zs c])
      next
        case (Some n)
        with zd t False show thesis by (intro hop [OF False t zd Some]) (subst chase_cname.simps, simp)
      qed
    qed
  qed
qed

lemma chase_cname_in:
  "r \<in> set (chase_cname J zs c rt depth) \<Longrightarrow>
   (rec_type r = rt \<or> rec_type r = TypeCname) \<and>
   (\<exists>zd \<in> set zs. zone_enabled (zd_zone zd) \<and> r \<in> set (zd_records zd) \<and> rec_enabled r)"
proof (induction J zs c rt depth rule: chase_cname.induct)
  case (1 J zs c rt depth)
  have here: "\<exists>zd \<in> set zs. zone_enabled (zd_zone zd) \<and> x \<in> set (zd_records zd) \<and> rec_enabled x"
    if "find_zone zs q = Some zd" "x \<in> set (records_at zd q)" for x q zd
    using that(2) find_zone_Some(1,2) [OF that(1)] by (auto simp: records_at_def)
  show ?case
  proof (cases rule: chase_cname_cases [of J zs c rt depth])
    case stop
    with "1.prems" show ?thesis by simp
  next
    case (leaf t zd)
    with "1.prems" here show ?thesis by simp
  next
    case (hop t zd n)
    have n: "n \<in> set (records_at zd (normalize_name t))" "rec_type n = TypeCname"
      using find_SomeD [OF hop(4)] by simp_all
    from "1.prems" hop(5) have "r = n \<or> r \<in> set (chase_cname J zs n rt (depth + 1))" by simp
    with n here [OF hop(3)] "1.IH" [OF hop(1-4)] show ?thesis by blast
  qed
qed

abbreviation cnames :: "'j dns_record list \<Rightarrow> 'j dns_record list" where
  "cnames rs \<equiv> filter (\<lambda>r. rec_type r = TypeCname) rs"

lemma chase_cname_length:
  "rt \<noteq> TypeCname \<Longrightarrow> length (cnames (chase_cname J zs c rt depth)) \<le> max_depth - depth"
proof (induction J zs c rt depth rule: chase_cname.induct)
  case (1 J zs c rt depth)
  show ?case
  proof (cases rule: chase_cname_cases [of J zs c rt depth])
    case stop
    then show ?thesis by simp
  next
    case (leaf t zd)
    have "cnames (chase_cname J zs c rt depth) = []"
      using "1.prems" by (auto simp: leaf(2) filter_empty_conv)
    then show ?thesis by simp
  next
    case (hop t zd n)
    from "1.IH" [OF hop(1-4)] "1.prems"
    have "length (cnames (chase_cname J zs n rt (depth + 1))) \<le> max_depth - (depth + 1)" by simp
    then have "Suc (length (cnames (chase_cname J zs n rt (depth + 1)))) \<le> max_depth - depth"
      using hop(1) by linarith
    moreover have "length (cnames (n # chase_cname J zs n rt (depth + 1))) \<le>
        Suc (length (cnames (chase_cname J zs n rt (depth + 1))))" by simp
    ultimately show ?thesis unfolding hop(5) by (rule order_trans [rotated])
  qed
qed

section \<open>Properties\<close>

lemma res_simps [simp]:
  "res_rcode res_base = NoError" "res_rcode res_refused = Refused" "res_rcode (res_of_answers rs) = NoError"
  "res_rcode (res_negative rc a s) = rc" "res_answers res_base = []" "res_answers (res_of_answers rs) = rs"
  "res_answers (res_negative rc a s) = []" "res_answers res_refused = []" "res_answers res_dropped = []"
  "res_authoritative (res_of_answers rs)" "res_authoritative (res_negative rc a s)"
  "res_from_rpz res_base = False" "res_from_rpz (res_of_answers rs) = False"
  "res_from_rpz (res_negative rc a s) = False" "res_from_rpz res_refused = False" "\<not> res_authoritative res_refused"
  by (simp_all add: res_base_def res_refused_def res_of_answers_def res_negative_def res_dropped_def)

lemma answer_at_rcode [simp]: "res_rcode (answer_at J snap rs rt apex s) = NoError"
  "res_authoritative (answer_at J snap rs rt apex s)"
  by (simp_all add: answer_at_def Let_def split: option.split)

lemma resolve_in_zone_rcode:
  "res_rcode (resolve_in_zone J snap zd q qt) =
     (if q \<noteq> apex_of zd \<and> records_at zd q = [] \<and> wildcard_at zd q = None then NxDomain else NoError) \<and>
   res_authoritative (resolve_in_zone J snap zd q qt)"
  by (cases qt) (simp_all add: resolve_in_zone_def Let_def split: option.split)

lemma records_at_Nil: "records_at zd q = [] \<longleftrightarrow> (\<forall>r \<in> set (zd_records zd). rec_enabled r \<longrightarrow> normalize_name (rec_name r) \<noteq> q)"
  by (auto simp: records_at_def filter_empty_conv)

text \<open>
  \<^bold>\<open>C31.\<close> The response code of a name that no policy rule matches. It is refused exactly when no
  enabled zone covers the name. Otherwise the answer is authoritative and comes from an enabled
  zone that covers the name, the longest such apex; and it is NXDOMAIN exactly when the name is not
  the apex, owns no enabled record of that zone and no enabled wildcard of that zone covers it.
\<close>

theorem resolve_rcode:
  assumes "q = normalize_name raw" and "rpz_action (snap_rpz snap) q = None"
  shows "(res_rcode (resolve_in J now snap raw qt) = Refused \<longleftrightarrow>
      (\<forall>zd \<in> set (snap_zones snap). zone_enabled (zd_zone zd) \<longrightarrow> \<not> covers (apex_of zd) q)) \<and>
    (res_rcode (resolve_in J now snap raw qt) \<noteq> Refused \<longrightarrow>
      res_authoritative (resolve_in J now snap raw qt) \<and>
      (\<exists>zd \<in> set (snap_zones snap). zone_enabled (zd_zone zd) \<and> covers (apex_of zd) q \<and>
         (\<forall>z \<in> set (snap_zones snap). zone_enabled (zd_zone z) \<and> covers (apex_of z) q \<longrightarrow>
            length (apex_of z) \<le> length (apex_of zd)) \<and>
         (res_rcode (resolve_in J now snap raw qt) = NxDomain \<longleftrightarrow>
            q \<noteq> apex_of zd \<and>
            (\<forall>r \<in> set (zd_records zd). rec_enabled r \<longrightarrow> normalize_name (rec_name r) \<noteq> q) \<and>
            (\<forall>r \<in> set (zd_records zd). \<not> wildcard_covers q r))))"
proof (cases "find_zone (snap_zones snap) q")
  case None
  then have "resolve_in J now snap raw qt = res_refused" using assms by (simp add: resolve_in_def)
  with None show ?thesis by (simp add: find_zone_None)
next
  case (Some zd)
  note f = find_zone_Some [OF Some]
  have r: "resolve_in J now snap raw qt = resolve_in_zone J snap zd q qt"
    using assms Some by (simp add: resolve_in_def)
  note rc = resolve_in_zone_rcode [of J snap zd q qt, folded r]
  have "res_rcode (resolve_in J now snap raw qt) \<noteq> Refused" using rc by simp
  moreover have "\<not> (\<forall>zd \<in> set (snap_zones snap). zone_enabled (zd_zone zd) \<longrightarrow> \<not> covers (apex_of zd) q)"
    using f(1-3) by blast
  moreover have "res_rcode (resolve_in J now snap raw qt) = NxDomain \<longleftrightarrow>
      q \<noteq> apex_of zd \<and> (\<forall>r \<in> set (zd_records zd). rec_enabled r \<longrightarrow> normalize_name (rec_name r) \<noteq> q) \<and>
      (\<forall>r \<in> set (zd_records zd). \<not> wildcard_covers q r)"
    using rc by (simp add: records_at_Nil wildcard_at_None)
  ultimately show ?thesis using rc f by blast
qed

lemma answer_at_answers:
  assumes "r \<in> set (res_answers (answer_at J snap rs rt apex s))"
  shows "(rec_type r = rt \<or> rec_type r = TypeCname) \<and>
    (r \<in> set rs \<or> (\<exists>zd \<in> set (snap_zones snap). zone_enabled (zd_zone zd) \<and> r \<in> set (zd_records zd) \<and> rec_enabled r))"
proof (cases "filter (\<lambda>r. rec_type r = rt) rs \<noteq> []")
  case True
  with assms show ?thesis by (simp add: answer_at_def)
next
  case False
  with assms obtain c where c: "List.find (\<lambda>r. rec_type r = TypeCname) rs = Some c"
    and "r = c \<or> r \<in> set (chase_cname J (snap_zones snap) c rt 0)"
    by (auto simp: answer_at_def split: if_splits option.splits)
  with find_SomeD [OF c] chase_cname_in show ?thesis by metis
qed


text \<open>
  \<^bold>\<open>C33.\<close> Alias chains are bounded: an answer holds at most nine aliases, also when the aliases of the
  zones form a cycle.
\<close>

theorem cname_chain_bounded:
  assumes "rt \<noteq> TypeCname"
  shows "length (cnames (res_answers (resolve_in J now snap raw (QRecord rt)))) \<le> 9"
proof -
  have ch: "length (cnames (c # chase_cname J zs c rt 0)) \<le> 9" for c zs
    using chase_cname_length [OF assms, of J zs c 0] by (simp add: max_depth_def)
  have at: "length (cnames (res_answers (answer_at J snap rs rt a s))) \<le> 9" for rs a s
  proof -
    have "cnames (filter (\<lambda>r. rec_type r = rt) rs) = []" using assms by (auto simp: filter_empty_conv)
    then show ?thesis using ch by (auto simp: answer_at_def Let_def split: option.split)
  qed
  have rp: "length (cnames (res_answers (apply_rpz J now snap q (QRecord rt) act to))) \<le> 9" for q act to
    using ch assms by (cases act) (auto simp: apply_rpz_def Let_def split: option.split)
  show ?thesis
    using at rp by (auto simp: resolve_in_def Let_def resolve_in_zone_def split: option.split prod.split)
qed

section \<open>Wildcards and empty non-terminals\<close>

definition demo_rec :: "string \<Rightarrow> record_type \<Rightarrow> string \<Rightarrow> demo_value dns_record" where
  "demo_rec name t v =
     \<lparr>rec_id = [], rec_created_at = 0, rec_updated_at = 0, rec_created_by = [], rec_zone = ''z'', rec_name = name,
      rec_ttl = 60, rec_type = t, rec_data = DObj [(''target'', DStr v)], rec_enabled = True\<rparr>"

definition demo_zone :: zone where
  "demo_zone =
     \<lparr>zone_id = ''z'', zone_created_at = 0, zone_updated_at = 0, zone_created_by = [], zone_name = ''ex.org'',
      zone_soa = default_soa, zone_enabled = True, zone_dnssec_enabled = False, zone_nsec3_enabled = False,
      zone_role_of = PrimaryZone, zone_allow_transfer = [], zone_also_notify = [], zone_notify_enabled = False,
      zone_primaries = [], zone_tsig_key_name = None, zone_transfer_state_of = None\<rparr>"

definition demo_snap :: "demo_value dns_record list \<Rightarrow> demo_value snapshot" where
  "demo_snap rs =
     \<lparr>snap_zones = [\<lparr>zd_zone = demo_zone, zd_records = rs\<rparr>], snap_rpz = []\<rparr>"


section \<open>Witnesses\<close>

text \<open>A missing name, and two aliases that point at each other.\<close>

lemma resolve_rcode_witness:
  "res_rcode (resolve_in demo_json 0 (demo_snap []) ''b.ex.org'' QAny) \<noteq> Refused \<and>
   res_authoritative (resolve_in demo_json 0 (demo_snap []) ''b.ex.org'' QAny)"
proof -
  have "rpz_action (snap_rpz (demo_snap [])) (normalize_name ''b.ex.org'') = None"
    by (simp add: demo_snap_def rpz_action_def)
  moreover have "res_rcode (resolve_in demo_json 0 (demo_snap []) ''b.ex.org'' QAny) = NxDomain" by code_simp
  ultimately show ?thesis using resolve_rcode [OF refl, of "demo_snap []" "''b.ex.org''" demo_json 0 QAny] by simp
qed

definition demo_loop :: "demo_value dns_record list" where
  "demo_loop = [demo_rec ''a.ex.org'' TypeCname ''b.ex.org'', demo_rec ''b.ex.org'' TypeCname ''a.ex.org'']"

lemma demo_loop_answers:
  "res_answers (resolve_in demo_json 0 (demo_snap demo_loop) ''a.ex.org'' (QRecord TypeA)) \<noteq> []"
  by code_simp


lemma cname_chain_bounded_witness:
  "length (cnames (res_answers (resolve_in demo_json 0 (demo_snap demo_loop) ''a.ex.org'' (QRecord TypeA)))) \<le> 9"
  by (rule cname_chain_bounded) simp

end
