(* ===== verification/Dns_Cache.thy ===== *)
theory Dns_Cache
  imports Rust_Prelude
begin

text \<open>
  The response cache of the forwarder, \<^verbatim>\<open>magnetite-dns/src/cache.rs\<close>, against its specification: a map
  that remembers the last response stored under each key and when it expires. The hash map is an
  association list with distinct keys, its order standing for the order of iteration; a stored
  key moves to the end. \<open>now\<close> and \<open>later\<close> are the two readings of the clock in a store.
\<close>

section \<open>The cache\<close>

record cache_entry =
  ce_response :: "u8 list"
  ce_expires_at :: time

type_synonym dns_cache = "(string \<times> cache_entry) list"

definition max_entries :: nat where
  "max_entries = 4096"

definition cache_key :: "string \<Rightarrow> string \<Rightarrow> string" where
  "cache_key q qt = to_ascii_lowercase (trim_end_matches CHR ''.'' q) @ CHR ''|'' # qt"

definition remove_key :: "string \<Rightarrow> dns_cache \<Rightarrow> dns_cache" where
  "remove_key k c = filter (\<lambda>e. fst e \<noteq> k) c"

definition cache_get :: "time \<Rightarrow> string \<Rightarrow> dns_cache \<Rightarrow> dns_cache \<times> u8 list option" where
  "cache_get now k c =
     (case map_of c k of
        Some e \<Rightarrow> if now < ce_expires_at e then (c, Some (ce_response e)) else (remove_key k c, None)
      | None \<Rightarrow> (c, None))"

definition evict_expired :: "time \<Rightarrow> dns_cache \<Rightarrow> dns_cache" where
  "evict_expired now c =
     (if max_entries \<le> length c then filter (\<lambda>e. now < ce_expires_at (snd e)) c else c)"

definition evict_oldest :: "dns_cache \<Rightarrow> dns_cache" where
  "evict_oldest c =
     (if max_entries \<le> length c
      then (case min_by_key (\<lambda>e. ce_expires_at (snd e)) c of
              Some e \<Rightarrow> remove_key (fst e) c
            | None \<Rightarrow> c)
      else c)"

definition cache_put :: "time \<Rightarrow> time \<Rightarrow> string \<Rightarrow> u8 list \<Rightarrow> time \<Rightarrow> dns_cache \<Rightarrow> dns_cache" where
  "cache_put now later k r ttl c =
     (if ttl = 0 then c
      else remove_key k (evict_oldest (evict_expired now c))
             @ [(k, \<lparr>ce_response = r, ce_expires_at = later + ttl\<rparr>)])"

section \<open>The specification\<close>

type_synonym cache_spec = "string \<rightharpoonup> u8 list \<times> time"

definition spec_put :: "time \<Rightarrow> string \<Rightarrow> u8 list \<Rightarrow> time \<Rightarrow> cache_spec \<Rightarrow> cache_spec" where
  "spec_put later k r ttl m = (if ttl = 0 then m else m(k \<mapsto> (r, later + ttl)))"

definition spec_get :: "time \<Rightarrow> string \<Rightarrow> cache_spec \<Rightarrow> u8 list option" where
  "spec_get now k m = (case m k of Some (r, t) \<Rightarrow> if now < t then Some r else None | None \<Rightarrow> None)"

inductive cache_run :: "dns_cache \<Rightarrow> cache_spec \<Rightarrow> bool" where
  start: "cache_run [] Map.empty"
| get: "cache_run c m \<Longrightarrow> cache_run (fst (cache_get now k c)) m"
| put: "cache_run c m \<Longrightarrow> cache_run (cache_put now later k r ttl c) (spec_put later k r ttl m)"

section \<open>The cache implements it\<close>

definition cache_rel :: "dns_cache \<Rightarrow> cache_spec \<Rightarrow> bool" where
  "cache_rel c m \<longleftrightarrow> distinct (map fst c) \<and> length c \<le> max_entries \<and>
     (\<forall>k e. (k, e) \<in> set c \<longrightarrow> m k = Some (ce_response e, ce_expires_at e))"

lemma distinct_filter_fst: "distinct (map fst c) \<Longrightarrow> distinct (map fst (filter P c))"
  by (induction c) auto

lemma cache_rel_filter:
  assumes "cache_rel c m"
  shows "cache_rel (filter P c) m"
proof -
  have "length (filter P c) \<le> max_entries"
    by (rule order_trans [OF length_filter_le]) (use assms in \<open>simp add: cache_rel_def\<close>)
  then show ?thesis using assms by (simp add: cache_rel_def distinct_filter_fst)
qed

lemma cache_rel_remove: "cache_rel c m \<Longrightarrow> cache_rel (remove_key k c) m"
  by (simp add: remove_key_def cache_rel_filter)

lemma cache_rel_evict:
  assumes "cache_rel c m"
  shows "cache_rel (evict_oldest (evict_expired now c)) m"
proof -
  have "cache_rel (evict_expired now c) m" using assms by (simp add: evict_expired_def cache_rel_filter)
  then show ?thesis
    by (cases "min_by_key (\<lambda>e. ce_expires_at (snd e)) (evict_expired now c)")
      (simp_all add: evict_oldest_def cache_rel_remove)
qed

lemma length_remove_key:
  assumes "k \<in> fst ` set c"
  shows "length (remove_key k c) < length c"
proof -
  from assms obtain e where "e \<in> set c" "\<not> fst e \<noteq> k" by auto
  then show ?thesis unfolding remove_key_def by (rule length_filter_less)
qed

lemma length_evict:
  assumes "length c \<le> max_entries"
  shows "length (evict_oldest (evict_expired now c)) < max_entries"
proof (cases "max_entries \<le> length (evict_expired now c)")
  case True
  let ?d = "evict_expired now c"
  have le: "length ?d \<le> max_entries"
    using assms order_trans [OF length_filter_le assms] by (simp add: evict_expired_def)
  have "?d \<noteq> []" using True by (auto simp: max_entries_def)
  then obtain e where e: "min_by_key (\<lambda>e. ce_expires_at (snd e)) ?d = Some e"
    by (cases "min_by_key (\<lambda>e. ce_expires_at (snd e)) ?d") auto
  have "length (remove_key (fst e) ?d) < length ?d"
    by (rule length_remove_key) (use min_by_key_in [OF e] in auto)
  with le e True show ?thesis by (simp add: evict_oldest_def)
qed (simp add: evict_oldest_def)

lemma cache_rel_put:
  assumes "cache_rel c m"
  shows "cache_rel (cache_put now later k r ttl c) (spec_put later k r ttl m)"
proof (cases "ttl = 0")
  case False
  let ?d = "evict_oldest (evict_expired now c)"
  have d: "cache_rel (remove_key k ?d) m" using assms by (intro cache_rel_remove cache_rel_evict)
  have "length (remove_key k ?d) \<le> length ?d" by (simp add: remove_key_def)
  also have "length ?d < max_entries" using assms by (intro length_evict) (simp add: cache_rel_def)
  finally have "length (remove_key k ?d) < max_entries" .
  moreover have "k \<notin> fst ` set (remove_key k ?d)" by (auto simp: remove_key_def)
  ultimately show ?thesis
    using d False by (auto simp: cache_rel_def cache_put_def spec_put_def remove_key_def)
qed (use assms in \<open>simp add: cache_put_def spec_put_def\<close>)

lemma cache_run_rel: "cache_run c m \<Longrightarrow> cache_rel c m"
proof (induction rule: cache_run.induct)
  case (get c m now k)
  then show ?case by (auto simp: cache_get_def intro: cache_rel_remove split: option.split)
qed (simp_all add: cache_rel_put, simp add: cache_rel_def)

lemma cache_get_spec:
  assumes "cache_rel c m" and "snd (cache_get now k c) = Some r"
  shows "spec_get now k m = Some r"
proof -
  from assms(2) obtain e where e: "map_of c k = Some e" "now < ce_expires_at e" "r = ce_response e"
    by (auto simp: cache_get_def split: option.splits if_splits)
  from map_of_SomeD [OF e(1)] assms(1) have "m k = Some (ce_response e, ce_expires_at e)"
    by (simp add: cache_rel_def)
  with e show ?thesis by (simp add: spec_get_def)
qed

lemma cache_put_get:
  assumes "ttl \<noteq> 0" and "t < later + ttl"
  shows "snd (cache_get t k (cache_put now later k r ttl c)) = Some r"
proof -
  have "map_of (remove_key k d) k = None" for d by (auto simp: map_of_eq_None_iff remove_key_def)
  then have "map_of (cache_put now later k r ttl c) k = Some \<lparr>ce_response = r, ce_expires_at = later + ttl\<rparr>"
    using assms(1) by (simp add: cache_put_def map_add_def)
  with assms(2) show ?thesis by (simp add: cache_get_def)
qed

text \<open>
  \<^bold>\<open>C34.\<close> The forwarder's cache implements the last-response map: after every sequence of stores and
  fetches it has at most 4096 entries, a fetch that hits returns the response stored last under the
  key and not yet expired, and a store is seen by the next fetch of its key before it expires.
\<close>

theorem cache_refines:
  assumes "cache_run c m"
  shows "length c \<le> 4096 \<and>
    (snd (cache_get now k c) = Some r \<longrightarrow> spec_get now k m = Some r) \<and>
    (ttl \<noteq> 0 \<and> t < later + ttl \<longrightarrow> snd (cache_get t k (cache_put now later k r ttl c)) = Some r)"
  using cache_run_rel [OF assms] cache_get_spec cache_put_get
  by (auto simp: cache_rel_def max_entries_def)

lemma cache_refines_witness:
  "snd (cache_get 5 ''a|A'' (cache_put 0 0 ''a|A'' [1] 10 [])) = Some [1] \<and>
   spec_get 5 ''a|A'' (spec_put 0 ''a|A'' [1] 10 Map.empty) = Some [1]"
proof -
  have "cache_run (cache_put 0 0 ''a|A'' [1] 10 []) (spec_put 0 ''a|A'' [1] 10 Map.empty)"
    by (intro cache_run.intros)
  from cache_refines [OF this, of 5 "''a|A''" "[1]"] cache_refines [OF cache_run.start, of 0 "''a|A''" "[1]" 10 5 0]
  show ?thesis by simp
qed

end
