(* ===== verification/Rust_Bytes.thy ===== *)
theory Rust_Bytes
  imports Rust_Prelude
begin

text \<open>
  Byte slices: \<^verbatim>\<open>get\<close> with an index and with a range, and the little-endian conversions of the integer
  types, with the facts that reading back what was written gives the same value.
\<close>

unbundle bit_operations_syntax

section \<open>Slices\<close>

definition get_at :: "'a list \<Rightarrow> nat \<Rightarrow> 'a option" where
  "get_at xs i = (if i < length xs then Some (xs ! i) else None)"

definition get_range :: "'a list \<Rightarrow> nat \<Rightarrow> nat \<Rightarrow> 'a list option" where
  "get_range xs a b = (if a \<le> b \<and> b \<le> length xs then Some (take (b - a) (drop a xs)) else None)"

lemma drop_Cons_bound: "drop i xs = y # ys \<Longrightarrow> i < length xs"
  by (metis drop_all leI list.discI)

lemma get_at_drop: "drop i xs = y # ys \<Longrightarrow> get_at xs i = Some y"
  using drop_Cons_bound [of i xs y ys] by (simp add: get_at_def hd_drop_conv_nth [symmetric])

lemma get_range_drop:
  assumes "drop i xs = ys @ zs" and "ys \<noteq> []" and "n = length ys"
  shows "get_range xs i (i + n) = Some ys"
proof -
  from arg_cong [OF assms(1), of length] assms(2) have "i + length ys \<le> length xs" by (cases ys) auto
  with assms show ?thesis by (simp add: get_range_def)
qed

lemma get_at_bound: "get_at xs i = Some x \<Longrightarrow> i < length xs"
  by (simp add: get_at_def split: if_splits)

lemma get_range_bound: "get_range xs a b = Some ys \<Longrightarrow> a \<le> b \<and> b \<le> length xs \<and> length ys = b - a"
  by (auto simp: get_range_def split: if_splits)

lemma drop_add_append: "drop i xs = ys @ zs \<Longrightarrow> n = length ys \<Longrightarrow> drop (i + n) xs = zs"
  by (metis add.commute append_eq_conv_conj drop_drop)

section \<open>Little-endian integers\<close>

definition u16_to_le :: "u16 \<Rightarrow> u8 list" where
  "u16_to_le w = [ucast w, ucast (drop_bit 8 w)]"

definition u32_to_le :: "u32 \<Rightarrow> u8 list" where
  "u32_to_le w = [ucast w, ucast (drop_bit 8 w), ucast (drop_bit 16 w), ucast (drop_bit 24 w)]"

fun u16_from_le :: "u8 list \<Rightarrow> u16 option" where
  "u16_from_le [a, b] = Some (ucast a OR push_bit 8 (ucast b))"
| "u16_from_le _ = None"

fun u32_from_le :: "u8 list \<Rightarrow> u32 option" where
  "u32_from_le [a, b, c, d] =
     Some (ucast a OR push_bit 8 (ucast b) OR push_bit 16 (ucast c) OR push_bit 24 (ucast d))"
| "u32_from_le _ = None"

lemma u16_le_roundtrip [simp]: "u16_from_le (u16_to_le w) = Some w"
proof -
  have "bit (ucast (ucast w :: u8) OR push_bit 8 (ucast (ucast (drop_bit 8 w) :: u8)) :: u16) n = bit w n"
    if "n < 16" for n
    using that by (auto simp: bit_simps)
  then show ?thesis by (simp add: u16_to_le_def bit_eq_iff [where ?'a = u16])
qed

lemma u32_le_roundtrip [simp]: "u32_from_le (u32_to_le w) = Some w"
proof -
  have "bit (ucast (ucast w :: u8) OR push_bit 8 (ucast (ucast (drop_bit 8 w) :: u8)) OR
      push_bit 16 (ucast (ucast (drop_bit 16 w) :: u8)) OR push_bit 24 (ucast (ucast (drop_bit 24 w) :: u8)) :: u32) n = bit w n"
    if "n < 32" for n
    using that by (cases "n < 16"; cases "n < 24") (auto simp: bit_simps)
  then show ?thesis by (simp add: u32_to_le_def bit_eq_iff [where ?'a = u32])
qed

lemma length_u16_to_le [simp]: "length (u16_to_le w) = 2"
  by (simp add: u16_to_le_def)

lemma length_u32_to_le [simp]: "length (u32_to_le w) = 4"
  by (simp add: u32_to_le_def)

end
