(* ===== verification/Smb_Comp.thy ===== *)
theory Smb_Comp
  imports Rust_Bytes "HOL-Library.Monad_Syntax"
begin

text \<open>
  The compression of SMB messages, \<^verbatim>\<open>magnetite-smb/src/comp.rs\<close>: the plain LZ77 compressor and
  decompressor and the transform header around them. The mutable variables of the two loops are
  the arguments of \<open>compress_loop\<close> and \<open>decompress_loop\<close>; \<open>?\<close> on an option is \<open>Option.bind\<close>. The proofs go
  through the list of tokens a compressed stream stands for.
\<close>

section \<open>Constants\<close>

definition compression_protocol_id :: "u8 list" where
  "compression_protocol_id = [0xFC, 0x53, 0x4D, 0x42]"

definition transform_header_len :: nat where
  "transform_header_len = 16"

definition compression_algorithm_lz77 :: u16 where
  "compression_algorithm_lz77 = 2"

definition max_match :: nat where
  "max_match = 9"

definition max_offset :: nat where
  "max_offset = 8192"

definition max_decompressed :: nat where
  "max_decompressed = 16 * 1024 * 1024"

section \<open>The compressor\<close>

function match_len :: "u8 list \<Rightarrow> nat \<Rightarrow> nat \<Rightarrow> nat \<Rightarrow> nat \<Rightarrow> nat" where
  "match_len input start pos max_len len =
     (if len < max_len \<and> input ! (start + len) = input ! (pos + len)
      then match_len input start pos max_len (Suc len) else len)"
  by pat_completeness auto
termination
  by (relation "measure (\<lambda>(_, _, _, max_len, len). max_len - len)") auto

declare match_len.simps [simp del]

fun best_match :: "u8 list \<Rightarrow> nat \<Rightarrow> nat \<Rightarrow> nat list \<Rightarrow> nat \<times> nat \<Rightarrow> nat \<times> nat" where
  "best_match input pos max_len [] best = best"
| "best_match input pos max_len (off # offs) (best_len, best_off) =
     (let len = match_len input (pos - off) pos max_len 0 in
      if best_len < len
      then (if len = max_len then (len, off) else best_match input pos max_len offs (len, off))
      else best_match input pos max_len offs (best_len, best_off))"

definition find_match :: "u8 list \<Rightarrow> nat \<Rightarrow> nat \<times> nat" where
  "find_match input pos =
     (let max_len = min (length input - pos) max_match in
      if max_len < 3 then (0, 0)
      else (let (best_len, best_off) = best_match input pos max_len [1 ..< Suc (min pos max_offset)] (0, 0) in
            if 3 \<le> best_len then (best_len, best_off) else (0, 0)))"

definition match_meta :: "nat \<Rightarrow> nat \<Rightarrow> u16" where
  "match_meta len off = push_bit 3 (of_nat (off - 1)) OR of_nat (len - 3)"

definition emit_token :: "u8 list \<Rightarrow> u32 \<Rightarrow> u8 list \<Rightarrow> nat \<Rightarrow> u32 \<times> u8 list \<times> nat" where
  "emit_token input flags grp i =
     (let (len, off) = find_match input i in
      if 3 \<le> len
      then (push_bit 1 flags OR 1, grp @ u16_to_le (match_meta len off), i + len)
      else (push_bit 1 flags, grp @ [input ! i], i + 1))"

lemma emit_token_index: "emit_token input flags grp i = (flags', grp', i') \<Longrightarrow> i < i'"
  by (auto simp: emit_token_def split: prod.splits if_splits)

function compress_loop :: "u8 list \<Rightarrow> u8 list \<Rightarrow> u32 \<Rightarrow> nat \<Rightarrow> u8 list \<Rightarrow> nat \<Rightarrow> u8 list" where
  "compress_loop input out flags cnt grp i =
     (if i < length input
      then (case emit_token input flags grp i of
              (flags, grp, i) \<Rightarrow>
                if cnt + 1 = 32
                then compress_loop input (out @ u32_to_le flags @ grp) 0 0 [] i
                else compress_loop input out flags (cnt + 1) grp i)
      else if 0 < cnt
      then out @ u32_to_le (push_bit (32 - cnt) flags) @ grp
      else out)"
  by pat_completeness auto
termination
  by (relation "measure (\<lambda>(input, _, _, _, _, i). length input - i)") (auto dest!: emit_token_index [OF sym])

declare compress_loop.simps [simp del]

definition lz77_compress :: "u8 list \<Rightarrow> u8 list" where
  "lz77_compress input = compress_loop input [] 0 0 [] 0"

section \<open>The decompressor\<close>

text \<open>The extended length of a match: the new length, read index and index of the pending nibble.\<close>

definition wide_length :: "u8 list \<Rightarrow> nat \<Rightarrow> (nat \<times> nat) option" where
  "wide_length input i =
     (case Option.bind (get_range input i (i + 2)) u16_from_le of
        None \<Rightarrow> None
      | Some w \<Rightarrow>
          if w = 0
          then map_option (\<lambda>d. (unat d, i + 6)) (Option.bind (get_range input (i + 2) (i + 6)) u32_from_le)
          else Some (unat w, i + 2))"

definition long_length :: "u8 list \<Rightarrow> nat \<Rightarrow> (nat \<times> nat) option" where
  "long_length input i =
     (case get_at input i of
        None \<Rightarrow> None
      | Some b \<Rightarrow>
          if b = 255
          then (case wide_length input (i + 1) of
                  None \<Rightarrow> None
                | Some (len, i) \<Rightarrow> if len < 15 + 7 then None else Some (len - (15 + 7) + 15, i))
          else Some (unat b + 15, i + 1))"

definition nibble_length :: "u8 list \<Rightarrow> nat \<Rightarrow> nat \<Rightarrow> (nat \<times> nat \<times> nat) option" where
  "nibble_length input i nibble =
     (if nibble = 0 then map_option (\<lambda>b. (unat (b AND 0x0F), i + 1, i)) (get_at input i)
      else Some (unat (drop_bit 4 (input ! nibble)), i, 0))"

definition ext_length :: "u8 list \<Rightarrow> nat \<Rightarrow> nat \<Rightarrow> (nat \<times> nat \<times> nat) option" where
  "ext_length input i nibble =
     (case nibble_length input i nibble of
        None \<Rightarrow> None
      | Some (len, i, nibble) \<Rightarrow>
          if len = 15 then map_option (\<lambda>(len, i). (len + 7, i, nibble)) (long_length input i)
          else Some (len + 7, i, nibble))"

primrec copy_back :: "nat \<Rightarrow> nat \<Rightarrow> u8 list \<Rightarrow> u8 list" where
  "copy_back 0 offset out = out"
| "copy_back (Suc n) offset out = copy_back n offset (out @ [out ! (length out - offset)])"

text \<open>A match token at \<open>i\<close>: the new output, read index and index of the pending nibble.\<close>

definition match_token :: "u8 list \<Rightarrow> nat \<Rightarrow> u8 list \<Rightarrow> nat \<Rightarrow> nat \<Rightarrow> (u8 list \<times> nat \<times> nat) option" where
  "match_token input max_out out i nibble =
     (case Option.bind (get_range input i (i + 2)) u16_from_le of
        None \<Rightarrow> None
      | Some meta \<Rightarrow>
          (case (if meta AND 7 = 7 then ext_length input (i + 2) nibble else Some (unat (meta AND 7), i + 2, nibble)) of
             None \<Rightarrow> None
           | Some (len, i, nibble) \<Rightarrow>
               (let offset = unat (drop_bit 3 meta) + 1 in
                if length out < offset then None
                else if max_out < length out + (len + 3) then None
                else Some (copy_back (len + 3) offset out, i, nibble))))"

lemma wide_length_index: "wide_length input i = Some (len, i') \<Longrightarrow> i < i'"
  by (auto simp: wide_length_def split: option.splits if_splits)

lemma long_length_index: "long_length input i = Some (len, i') \<Longrightarrow> i < i'"
  by (auto simp: long_length_def dest!: wide_length_index split: option.splits if_splits)

lemma nibble_length_index: "nibble_length input i nibble = Some (len, i', nibble') \<Longrightarrow> i \<le> i'"
  by (auto simp: nibble_length_def split: if_splits)

lemma ext_length_index: "ext_length input i nibble = Some (len, i', nibble') \<Longrightarrow> i \<le> i'"
  by (fastforce simp: ext_length_def dest!: nibble_length_index long_length_index split: option.splits if_splits)

lemma match_token_index: "match_token input max_out out i nibble = Some (out', i', nibble') \<Longrightarrow> i < i'"
  by (fastforce simp: match_token_def Let_def dest!: ext_length_index split: option.splits if_splits)

definition read_flags :: "u8 list \<Rightarrow> nat \<Rightarrow> u32 \<Rightarrow> nat \<Rightarrow> (u32 \<times> nat \<times> nat) option" where
  "read_flags input i flags flag_count =
     (if flag_count = 0
      then map_option (\<lambda>w. (w, 32, i + 4)) (Option.bind (get_range input i (i + 4)) u32_from_le)
      else Some (flags, flag_count, i))"

lemma read_flags_index: "read_flags input i flags c = Some (flags', c', i') \<Longrightarrow> i \<le> i'"
  by (auto simp: read_flags_def split: if_splits)

definition is_match :: "u32 \<Rightarrow> bool" where
  "is_match flags \<longleftrightarrow> flags AND 0x80000000 \<noteq> 0"

function decompress_loop :: "u8 list \<Rightarrow> nat \<Rightarrow> u8 list \<Rightarrow> nat \<Rightarrow> u32 \<Rightarrow> nat \<Rightarrow> nat \<Rightarrow> u8 list option" where
  "decompress_loop input max_out out i flags flag_count nibble =
     (if i < length input
      then (case read_flags input i flags flag_count of
              None \<Rightarrow> None
            | Some (flags, flag_count, i) \<Rightarrow>
                if \<not> is_match flags
                then (if max_out \<le> length out then None
                      else (case get_at input i of
                              None \<Rightarrow> None
                            | Some b \<Rightarrow>
                                decompress_loop input max_out (out @ [b]) (i + 1) (push_bit 1 flags) (flag_count - 1) nibble))
                else if length input < i + 2 then Some out
                else (case match_token input max_out out i nibble of
                        None \<Rightarrow> None
                      | Some (out, i, nibble) \<Rightarrow>
                          decompress_loop input max_out out i (push_bit 1 flags) (flag_count - 1) nibble))
      else Some out)"
  by pat_completeness auto
termination
proof (relation "measure (\<lambda>(input, _, _, i, _). length input - i)", goal_cases)
  case 1
  show ?case by simp
next
  case (2 input max_out out i flags flag_count nibble fci flags' ci' flag_count' i' b)
  have "i \<le> i'" by (rule read_flags_index [of input i flags flag_count flags' flag_count']) (simp only: 2)
  moreover have "i' < length input" by (rule get_at_bound) (rule 2)
  ultimately have "length input - (i' + 1) < length input - i" by simp
  then show ?case by (simp only: in_measure split_conv)
next
  case (3 input max_out out i flags flag_count nibble fci flags' ci' flag_count' i' oin out' in' i'' nibble')
  have "i \<le> i'" by (rule read_flags_index [of input i flags flag_count flags' flag_count']) (simp only: 3)
  moreover have "i' < i''" by (rule match_token_index [of input max_out out i' nibble out' i'' nibble']) (simp only: 3)
  ultimately have "length input - i'' < length input - i" using 3(1) by simp
  then show ?case by (simp only: in_measure split_conv)
qed

declare decompress_loop.simps [simp del]

definition lz77_decompress :: "u8 list \<Rightarrow> nat \<Rightarrow> u8 list option" where
  "lz77_decompress input max_out = decompress_loop input max_out [] 0 0 0 0"

section \<open>The transform header\<close>

definition decompress_payload :: "nat \<Rightarrow> nat \<Rightarrow> u8 list \<Rightarrow> u8 list option" where
  "decompress_payload original_size offset payload =
     do {
       pre \<leftarrow> get_range payload 0 offset;
       compressed \<leftarrow> get_range payload offset (length payload);
       rest \<leftarrow> lz77_decompress compressed (original_size - length pre);
       if length (pre @ rest) = original_size then Some (pre @ rest) else None
     }"

definition decompress_message :: "u8 list \<Rightarrow> u8 list option" where
  "decompress_message transform =
     (if length transform < transform_header_len \<or> take 4 transform \<noteq> compression_protocol_id then None
      else do {
        original_size \<leftarrow> Option.bind (get_range transform 4 8) u32_from_le;
        algorithm \<leftarrow> Option.bind (get_range transform 8 10) u16_from_le;
        offset \<leftarrow> Option.bind (get_range transform 12 16) u32_from_le;
        if algorithm \<noteq> compression_algorithm_lz77 then None
        else if max_decompressed < unat original_size then None
        else decompress_payload (unat original_size) (unat offset) (drop transform_header_len transform)
      })"

definition compress_message :: "u8 list \<Rightarrow> u8 list" where
  "compress_message plaintext =
     compression_protocol_id @ u32_to_le (of_nat (length plaintext)) @ u16_to_le compression_algorithm_lz77 @
     u16_to_le 0 @ u32_to_le 0 @ lz77_compress plaintext"

section \<open>The matcher\<close>

definition matches :: "u8 list \<Rightarrow> nat \<Rightarrow> nat \<Rightarrow> nat \<Rightarrow> bool" where
  "matches input pos len off \<longleftrightarrow>
     1 \<le> off \<and> off \<le> min pos max_offset \<and> pos + len \<le> length input \<and> len \<le> max_match \<and>
     (\<forall>k < len. input ! (pos - off + k) = input ! (pos + k))"

lemma match_len_correct:
  assumes "len \<le> max_len" and "\<forall>k < len. input ! (start + k) = input ! (pos + k)"
  shows "match_len input start pos max_len len \<le> max_len \<and>
    (\<forall>k < match_len input start pos max_len len. input ! (start + k) = input ! (pos + k))"
  using assms
proof (induction input start pos max_len len rule: match_len.induct)
  case (1 input start pos max_len len)
  show ?case
  proof (cases "len < max_len \<and> input ! (start + len) = input ! (pos + len)")
    case True
    have "\<forall>k < Suc len. input ! (start + k) = input ! (pos + k)" using 1(3) True by (simp add: less_Suc_eq)
    moreover have "Suc len \<le> max_len" using True by simp
    ultimately show ?thesis using 1(1) [OF True] True by (simp add: match_len.simps [of input start pos max_len len])
  next
    case False
    then have "match_len input start pos max_len len = len" by (subst match_len.simps) (rule if_not_P)
    with 1(2,3) show ?thesis by simp
  qed
qed

lemma best_match_correct:
  assumes "pos + max_len \<le> length input" and "max_len \<le> max_match"
    and "\<forall>off \<in> set offs. 1 \<le> off \<and> off \<le> min pos max_offset"
    and "0 < fst best \<longrightarrow> matches input pos (fst best) (snd best)"
    and "best_match input pos max_len offs best = (len, off)" and "0 < len"
  shows "matches input pos len off"
  using assms(3-)
proof (induction offs arbitrary: best)
  case (Cons o1 offs)
  let ?l = "match_len input (pos - o1) pos max_len 0"
  have l: "?l \<le> max_len" "\<forall>k < ?l. input ! (pos - o1 + k) = input ! (pos + k)"
    using match_len_correct [of 0 max_len input "pos - o1" pos] by simp_all
  have m: "matches input pos ?l o1" unfolding matches_def using l assms(1,2) Cons.prems(1) by simp
  obtain bl bo where b: "best = (bl, bo)" by (cases best)
  show ?case
  proof (cases "bl < ?l")
    case True
    then show ?thesis using Cons.prems m Cons.IH [of "(?l, o1)"] by (cases "?l = max_len") (simp_all add: b Let_def)
  next
    case False
    then show ?thesis using Cons.prems Cons.IH [of "(bl, bo)"] by (simp add: b Let_def)
  qed
qed simp

lemma find_match_correct:
  assumes "find_match input pos = (len, off)" and "3 \<le> len" and "pos \<le> length input"
  shows "matches input pos len off"
proof -
  let ?max = "min (length input - pos) max_match"
  obtain bl bo where b: "best_match input pos ?max [1 ..< Suc (min pos max_offset)] (0, 0) = (bl, bo)"
    by (cases "best_match input pos ?max [1 ..< Suc (min pos max_offset)] (0, 0)")
  have "matches input pos bl bo" if "0 < bl"
    by (rule best_match_correct [OF _ _ _ _ b that]) (use assms(3) in auto)
  then show ?thesis using assms(1,2) b by (auto simp: find_match_def Let_def split: if_splits)
qed

lemma copy_back_take:
  "\<lbrakk>1 \<le> off; off \<le> pos; pos + len \<le> length input; \<forall>k < len. input ! (pos - off + k) = input ! (pos + k)\<rbrakk>
   \<Longrightarrow> copy_back len off (take pos input) = take (pos + len) input"
proof (induction len arbitrary: pos)
  case (Suc len)
  have "take pos input ! (length (take pos input) - off) = input ! pos"
    using Suc.prems by (simp add: min_absorb2) (metis add.right_neutral zero_less_Suc)
  moreover have "\<forall>k < len. input ! (Suc pos - off + k) = input ! (Suc pos + k)"
  proof (intro allI impI)
    fix k assume "k < len"
    then show "input ! (Suc pos - off + k) = input ! (Suc pos + k)"
      using Suc.prems(2) Suc.prems(4) [rule_format, of "Suc k"] by (simp add: Suc_diff_le)
  qed
  ultimately show ?case
    using Suc.IH [of "Suc pos"] Suc.prems by (simp add: take_Suc_conv_app_nth [symmetric])
qed simp

section \<open>Tokens\<close>

text \<open>What the compressor finds at a position, and its encoding in groups of 32.\<close>

datatype token = Lit u8 | Ref nat nat

primrec tok_flag :: "token \<Rightarrow> bool" where
  "tok_flag (Lit b) = False"
| "tok_flag (Ref len off) = True"

primrec tok_bytes :: "token \<Rightarrow> u8 list" where
  "tok_bytes (Lit b) = [b]"
| "tok_bytes (Ref len off) = u16_to_le (match_meta len off)"

primrec tok_len :: "token \<Rightarrow> nat" where
  "tok_len (Lit b) = 1"
| "tok_len (Ref len off) = len"

definition tok_at :: "u8 list \<Rightarrow> nat \<Rightarrow> token" where
  "tok_at input i = (case find_match input i of (len, off) \<Rightarrow> if 3 \<le> len then Ref len off else Lit (input ! i))"

lemma tok_len_pos [simp]: "0 < tok_len (tok_at input i)"
  by (auto simp: tok_at_def split: prod.split)

function tokens :: "u8 list \<Rightarrow> nat \<Rightarrow> token list" where
  "tokens input i =
     (if i < length input then tok_at input i # tokens input (i + tok_len (tok_at input i)) else [])"
  by pat_completeness auto
termination
  by (relation "measure (\<lambda>(input, i). length input - i)") (simp_all add: diff_less_mono2)

declare tokens.simps [simp del]

definition pack :: "bool list \<Rightarrow> u32" where
  "pack bs = foldl (\<lambda>f b. push_bit 1 f OR of_bool b) 0 bs"

function enc_tokens :: "token list \<Rightarrow> u8 list" where
  "enc_tokens ts =
     (if ts = [] then []
      else u32_to_le (push_bit (32 - length (take 32 ts)) (pack (map tok_flag (take 32 ts)))) @
        concat (map tok_bytes (take 32 ts)) @ enc_tokens (drop 32 ts))"
  by pat_completeness auto
termination
  by (relation "measure length") simp_all

declare enc_tokens.simps [simp del]

lemma enc_tokens_Nil [simp]: "enc_tokens [] = []"
  by (simp add: enc_tokens.simps)

lemma emit_token_eq:
  "emit_token input flags grp i =
     (push_bit 1 flags OR of_bool (tok_flag (tok_at input i)), grp @ tok_bytes (tok_at input i), i + tok_len (tok_at input i))"
  by (auto simp: emit_token_def tok_at_def split: prod.split)

lemma pack_snoc: "pack (bs @ [b]) = push_bit 1 (pack bs) OR of_bool b"
  by (simp add: pack_def)

lemma enc_tokens_short:
  assumes "ps \<noteq> []" and "length ps \<le> 32"
  shows "enc_tokens (ps @ ts) =
    (if length ps = 32
     then u32_to_le (pack (map tok_flag ps)) @ concat (map tok_bytes ps) @ enc_tokens ts
     else enc_tokens (ps @ ts))"
  using assms by (simp add: enc_tokens.simps [of "ps @ ts"])

lemma compress_loop_tokens:
  assumes "length ps < 32"
  shows "compress_loop input out (pack (map tok_flag ps)) (length ps) (concat (map tok_bytes ps)) i =
    out @ enc_tokens (ps @ tokens input i)"
  using assms
proof (induction input i arbitrary: out ps rule: tokens.induct)
  case (1 input i)
  let ?t = "tok_at input i" and ?i = "i + tok_len (tok_at input i)"
  note unfold = compress_loop.simps [of input out "pack (map tok_flag ps)" "length ps" "concat (map tok_bytes ps)" i]
  show ?case
  proof (cases "i < length input")
    case False
    then show ?thesis using 1(2) by (simp add: unfold tokens.simps [of input i] enc_tokens.simps [of ps])
  next
    case True
    note ih = 1(1) [OF True]
    show ?thesis
    proof (cases "length ps = 31")
      case full: True
      show ?thesis
        using ih [of "[]"] enc_tokens_short [of "ps @ [?t]" "tokens input ?i"] full True
        by (subst unfold) (simp add: emit_token_eq pack_snoc tokens.simps [of input i] pack_def [of "[]"])
    next
      case part: False
      then show ?thesis
        using ih [of "ps @ [?t]"] 1(2) True by (simp add: unfold emit_token_eq pack_snoc tokens.simps [of input i])
    qed
  qed
qed

lemma lz77_compress_tokens: "lz77_compress input = enc_tokens (tokens input 0)"
  using compress_loop_tokens [of "[]" input "[]" 0] by (simp add: lz77_compress_def pack_def)

section \<open>Flags\<close>

definition aligned :: "bool list \<Rightarrow> u32 \<Rightarrow> bool" where
  "aligned bs f \<longleftrightarrow> (\<forall>k < length bs. bit f (31 - k) \<longleftrightarrow> bs ! k)"

lemma bit_times2: "bit (f * 2 :: u32) n \<longleftrightarrow> 0 < n \<and> n < 32 \<and> bit f (n - 1)"
  by (auto simp: mult.commute [of f] bit_double_iff)

lemma is_match_bit: "is_match f \<longleftrightarrow> bit f 31"
  by (simp add: is_match_def bit_iff_and_push_bit_not_eq_0 push_bit_eq_mult)

lemma aligned_Cons:
  assumes "aligned (b # bs) f" and "length (b # bs) \<le> 32"
  shows "is_match f = b" and "aligned bs (push_bit 1 f)"
proof -
  show "is_match f = b" using assms(1) [unfolded aligned_def, rule_format, of 0] by (simp add: is_match_bit)
  show "aligned bs (push_bit 1 f)" unfolding aligned_def
  proof (intro allI impI)
    fix k assume "k < length bs"
    with assms(1) [unfolded aligned_def, rule_format, of "Suc k"] assms(2)
    show "bit (push_bit 1 f) (31 - k) \<longleftrightarrow> bs ! k" by (auto simp: bit_times2)
  qed
qed

lemma bit_pack: "n < length bs \<Longrightarrow> n < 32 \<Longrightarrow> bit (pack bs) n \<longleftrightarrow> rev bs ! n"
proof (induction bs arbitrary: n rule: rev_induct)
  case (snoc b bs)
  then show ?case by (cases n) (auto simp: pack_snoc bit_or_iff bit_of_bool_iff bit_times2)
qed simp

lemma aligned_pack:
  assumes "length bs \<le> 32"
  shows "aligned bs (push_bit (32 - length bs) (pack bs))"
  unfolding aligned_def
proof (intro allI impI)
  fix k assume "k < length bs"
  then show "bit (push_bit (32 - length bs) (pack bs)) (31 - k) \<longleftrightarrow> bs ! k"
    using assms bit_pack [of "length bs - Suc k" bs] by (auto simp: bit_push_bit_iff rev_nth)
qed

section \<open>Decompression undoes compression\<close>

lemma bit_nat_bound:
  assumes "bit a n" and "a < (2 :: nat) ^ m"
  shows "n < m"
proof (rule ccontr)
  assume "\<not> n < m"
  then have "(2 :: nat) ^ m \<le> 2 ^ n" by (simp add: power_increasing)
  then have "a div 2 ^ n = 0" by (intro div_less) (rule less_le_trans [OF assms(2)])
  with assms(1) show False by (simp add: bit_iff_odd)
qed

lemma match_meta_fields:
  assumes "len < 10" and "off \<le> 8192" and "3 \<le> len" and "1 \<le> off"
  shows "unat (drop_bit 3 (match_meta len off)) = off - 1" and "unat (match_meta len off AND 7) = len - 3"
    and "match_meta len off AND 7 \<noteq> 7"
proof -
  let ?a = "of_nat (off - 1) :: u16" and ?b = "of_nat (len - 3) :: u16"
  have a: "n < 13" if "bit (off - Suc 0) n" for n by (rule bit_nat_bound [OF that]) (use assms in simp)
  have b: "n < 3" if "bit (len - 3) n" for n by (rule bit_nat_bound [OF that]) (use assms in simp)
  have "drop_bit 3 (match_meta len off) = ?a"
    by (rule bit_word_eqI) (auto simp: match_meta_def bit_simps dest: a b)
  moreover have "unat ?a = off - 1" unfolding unat_of_nat using assms by (intro mod_less) simp
  ultimately show "unat (drop_bit 3 (match_meta len off)) = off - 1" by (simp only:)
  have "match_meta len off AND 7 = match_meta len off AND mask 3" by (simp add: mask_eq_exp_minus_1)
  also have "\<dots> = ?b"
    by (rule bit_word_eqI) (auto simp: match_meta_def bit_simps dest: a b)
  finally have m: "match_meta len off AND 7 = ?b" .
  moreover have "unat ?b = len - 3" unfolding unat_of_nat using assms by (intro mod_less) simp
  ultimately show "unat (match_meta len off AND 7) = len - 3" by (simp only:)
  then show "match_meta len off AND 7 \<noteq> 7" using assms by auto
qed

lemma match_token_tokens:
  assumes "drop i input = u16_to_le (match_meta len off) @ rest" and "matches x pos len off" and "3 \<le> len"
    and "length x \<le> max_out"
  shows "match_token input max_out (take pos x) i nibble = Some (take (pos + len) x, i + 2, nibble)"
proof -
  have m: "len < 10" "off \<le> 8192" "1 \<le> off" "off \<le> pos" "pos + len \<le> length x"
    using assms(2) by (auto simp: matches_def max_match_def max_offset_def)
  have c: "copy_back len off (take pos x) = take (pos + len) x"
    by (rule copy_back_take) (use assms(2) in \<open>auto simp: matches_def\<close>)
  have "get_range input i (i + 2) = Some (u16_to_le (match_meta len off))"
    by (rule get_range_drop [OF assms(1)]) (simp_all add: u16_to_le_def)
  then show ?thesis
    using m c match_meta_fields [OF m(1,2) assms(3) m(3)] assms(3,4) by (simp add: match_token_def min_absorb2)
qed

lemma read_flags_tokens:
  assumes "drop i input = concat (map tok_bytes (take c ts)) @ enc_tokens (drop c ts)"
    and "aligned (map tok_flag (take c ts)) flags" and "c \<le> 32" and "ts \<noteq> []"
  obtains flags' c' i' where "read_flags input i flags c = Some (flags', Suc c', i')" and "c' < 32"
    and "drop i' input = concat (map tok_bytes (take (Suc c') ts)) @ enc_tokens (drop (Suc c') ts)"
    and "aligned (map tok_flag (take (Suc c') ts)) flags'"
proof (cases c)
  case (Suc c')
  show ?thesis
    by (rule that [of flags c' i]) (use assms Suc in \<open>simp_all add: read_flags_def\<close>)
next
  case 0
  let ?bs = "map tok_flag (take 32 ts)"
  let ?w = "push_bit (32 - length ?bs) (pack ?bs)"
  have d: "drop i input = u32_to_le ?w @ concat (map tok_bytes (take 32 ts)) @ enc_tokens (drop 32 ts)"
    using assms(1,4) 0 by (simp add: enc_tokens.simps [of ts])
  have "get_range input i (i + 4) = Some (u32_to_le ?w)"
    by (rule get_range_drop [OF d]) (simp_all add: u32_to_le_def)
  then have r: "read_flags input i flags c = Some (?w, Suc 31, i + 4)" by (simp add: read_flags_def 0)
  have "drop (i + 4) input = concat (map tok_bytes (take 32 ts)) @ enc_tokens (drop 32 ts)"
    by (rule drop_add_append [OF d]) simp
  moreover have "aligned ?bs ?w" by (rule aligned_pack) simp
  ultimately show ?thesis using that [OF r] by simp
qed

lemma tok_at_cases:
  assumes "pos < length x"
  obtains (lit) "tok_at x pos = Lit (x ! pos)"
    | (ref) len off where "tok_at x pos = Ref len off" and "matches x pos len off" and "3 \<le> len"
proof (cases "find_match x pos")
  case (Pair len off)
  then show ?thesis using that find_match_correct [OF Pair] assms by (cases "3 \<le> len") (simp_all add: tok_at_def)
qed

lemma tok_at_bound:
  assumes "pos < length x"
  shows "pos + tok_len (tok_at x pos) \<le> length x"
  using assms by (cases rule: tok_at_cases) (use assms in \<open>auto simp: matches_def\<close>)

lemma decompress_step_tokens:
  assumes pos: "pos < length x" and max_out: "length x \<le> max_out" and i: "i < length input"
    and r: "read_flags input i flags c = Some (flags', Suc c', i')"
    and d: "drop i' input = tok_bytes (tok_at x pos) @ rest"
    and m: "is_match flags' = tok_flag (tok_at x pos)"
  shows "decompress_loop input max_out (take pos x) i flags c nibble =
    decompress_loop input max_out (take (pos + tok_len (tok_at x pos)) x)
      (i' + length (tok_bytes (tok_at x pos))) (push_bit 1 flags') c' nibble"
  using pos
proof (cases rule: tok_at_cases)
  case lit
  have "get_at input i' = Some (x ! pos)" by (rule get_at_drop) (use d lit in simp)
  then show ?thesis
    using pos max_out i r m lit
    by (subst decompress_loop.simps) (simp add: min_absorb2 take_Suc_conv_app_nth)
next
  case (ref len off)
  have d': "drop i' input = u16_to_le (match_meta len off) @ rest" using d ref by simp
  have "i' + 2 \<le> length input" using arg_cong [OF d', of length] by simp
  then show ?thesis
    using match_token_tokens [OF d' ref(2,3) max_out] i r m ref
    by (subst decompress_loop.simps) simp
qed

lemma decompress_loop_tokens:
  assumes "length x \<le> max_out" and "pos \<le> length x" and "c \<le> 32"
    and "drop i input = concat (map tok_bytes (take c (tokens x pos))) @ enc_tokens (drop c (tokens x pos))"
    and "aligned (map tok_flag (take c (tokens x pos))) flags"
  shows "decompress_loop input max_out (take pos x) i flags c nibble = Some x"
  using assms
proof (induction x pos arbitrary: i flags c rule: tokens.induct)
  case (1 x pos)
  note unfold = decompress_loop.simps [of input max_out "take pos x" i flags c nibble]
  show ?case
  proof (cases "pos < length x")
    case False
    then have "drop i input = []" using 1(5) by (simp add: tokens.simps [of x pos])
    then show ?thesis using 1(3) False by (subst unfold) simp
  next
    case True
    let ?t = "tok_at x pos" and ?ts = "tokens x (pos + tok_len (tok_at x pos))"
    have ts: "tokens x pos = ?t # ?ts" using True by (simp add: tokens.simps [of x pos])
    obtain flags' c' i' where r: "read_flags input i flags c = Some (flags', Suc c', i')" and c': "c' < 32"
      and d: "drop i' input = concat (map tok_bytes (take (Suc c') (?t # ?ts))) @ enc_tokens (drop (Suc c') (?t # ?ts))"
      and al: "aligned (map tok_flag (take (Suc c') (?t # ?ts))) flags'"
      by (rule read_flags_tokens [OF 1(5)[unfolded ts] 1(6)[unfolded ts] 1(4)]) simp_all
    have d': "drop i' input = tok_bytes ?t @ concat (map tok_bytes (take c' ?ts)) @ enc_tokens (drop c' ?ts)"
      using d by simp
    have m: "is_match flags' = tok_flag ?t" and al': "aligned (map tok_flag (take c' ?ts)) (push_bit 1 flags')"
      using aligned_Cons [of "tok_flag ?t" "map tok_flag (take c' ?ts)" flags'] al c' by simp_all
    have ib: "i < length input"
      using r d' read_flags_index [OF r] by (cases ?t) (auto simp: u16_to_le_def dest: drop_Cons_bound)
    show ?thesis
      unfolding decompress_step_tokens [OF True 1(2) ib r d' m]
      by (rule 1(1) [OF True 1(2) tok_at_bound [OF True] _ drop_add_append [OF d'] al']) (use c' in simp_all)
  qed
qed

lemma lz77_roundtrip: "length x \<le> n \<Longrightarrow> lz77_decompress (lz77_compress x) n = Some x"
  using decompress_loop_tokens [of x n 0 0 0 "lz77_compress x" 0 0]
  by (simp add: lz77_decompress_def lz77_compress_tokens aligned_def)

section \<open>The decompressor is bounded\<close>

lemma length_copy_back [simp]: "length (copy_back n off out) = length out + n"
  by (induction n arbitrary: out) simp_all

lemma match_token_bounded:
  "match_token input max_out out i nibble = Some (out', i', nibble') \<Longrightarrow> length out' \<le> max_out"
  by (auto simp: match_token_def Let_def split: option.splits if_splits)

lemma decompress_loop_bounded:
  assumes "decompress_loop input max_out out i flags c nibble = Some res" and "length out \<le> max_out"
  shows "length res \<le> max_out"
  using assms
proof (induction "length input - i" arbitrary: out i flags c nibble rule: less_induct)
  case less
  note unfold = decompress_loop.simps [of input max_out out i flags c nibble]
  show ?case
  proof (cases "i < length input")
    case False
    then show ?thesis using less.prems by (simp add: unfold)
  next
    case i: True
    then obtain flags' c' i' where r: "read_flags input i flags c = Some (flags', c', i')"
      using less.prems(1) by (cases "read_flags input i flags c") (auto simp: unfold)
    note le = read_flags_index [OF r]
    show ?thesis
    proof (cases "is_match flags'")
      case False
      then obtain b where "length out < max_out" and b: "get_at input i' = Some b"
        and "decompress_loop input max_out (out @ [b]) (i' + 1) (push_bit 1 flags') (c' - 1) nibble = Some res"
        using less.prems(1) i r by (auto simp: unfold split: if_splits option.splits)
      then show ?thesis using less.hyps [of "i' + 1" "out @ [b]"] i le get_at_bound [OF b] by simp
    next
      case True
      then consider "res = out" | out' i'' nibble' where "match_token input max_out out i' nibble = Some (out', i'', nibble')"
        and "decompress_loop input max_out out' i'' (push_bit 1 flags') (c' - 1) nibble' = Some res"
        using less.prems(1) i r by (auto simp: unfold split: if_splits option.splits)
      then show ?thesis
      proof cases
        case (2 out' i'' nibble')
        then show ?thesis
          using less.hyps [of i'' out'] i le match_token_index [OF 2(1)] match_token_bounded [OF 2(1)] by simp
      qed (use less.prems in simp)
    qed
  qed
qed

lemma lz77_bounded: "lz77_decompress input n = Some out \<Longrightarrow> length out \<le> n"
  by (auto simp: lz77_decompress_def dest: decompress_loop_bounded)

section \<open>Messages\<close>

text \<open>The fields of a header as the decoder reads them.\<close>

definition header :: "u32 \<Rightarrow> u16 \<Rightarrow> u16 \<Rightarrow> u32 \<Rightarrow> u8 list" where
  "header sz alg fl off = compression_protocol_id @ u32_to_le sz @ u16_to_le alg @ u16_to_le fl @ u32_to_le off"

lemma length_header [simp]: "length (header sz alg fl off) = 16"
  by (simp add: header_def compression_protocol_id_def)

lemma header_fields:
  assumes "t = header sz alg fl off @ payload"
  shows "get_range t 4 8 = Some (u32_to_le sz)" and "get_range t 8 10 = Some (u16_to_le alg)"
    and "get_range t 12 16 = Some (u32_to_le off)" and "take 4 t = compression_protocol_id"
    and "drop 16 t = payload" and "\<not> length t < 16"
  unfolding assms
  by (simp_all add: header_def get_range_def compression_protocol_id_def u32_to_le_def u16_to_le_def)

lemma decompress_message_header:
  "decompress_message (header sz alg fl off @ payload) =
     (if alg = compression_algorithm_lz77 \<and> unat sz \<le> max_decompressed
      then decompress_payload (unat sz) (unat off) payload else None)"
proof -
  obtain t where t: "t = header sz alg fl off @ payload" by simp
  show ?thesis unfolding t [symmetric] by (simp add: decompress_message_def header_fields [OF t] transform_header_len_def)
qed

lemma decompress_payload_length: "decompress_payload n off payload = Some msg \<Longrightarrow> length msg = n"
  by (auto simp: decompress_payload_def bind_eq_Some_conv split: if_splits)

lemma decompress_payload_0:
  "decompress_payload n 0 payload =
     (case lz77_decompress payload n of Some out \<Rightarrow> if length out = n then Some out else None | None \<Rightarrow> None)"
  by (simp add: decompress_payload_def get_range_def split: option.split)

lemma decompress_message_size:
  assumes "decompress_message t = Some msg"
  shows "length msg \<le> max_decompressed" and "Option.bind (get_range t 4 8) u32_from_le = Some (of_nat (length msg))"
proof -
  have h: "\<not> (length t < transform_header_len \<or> take 4 t \<noteq> compression_protocol_id)"
    by (rule notI) (use assms in \<open>simp only: decompress_message_def if_P option.distinct\<close>)
  note d = assms [unfolded decompress_message_def if_not_P [OF h]]
  from d obtain sz where sz: "Option.bind (get_range t 4 8) u32_from_le = Some sz"
    by (cases "Option.bind (get_range t 4 8) u32_from_le") simp_all
  from d sz obtain alg where alg: "Option.bind (get_range t 8 10) u16_from_le = Some alg"
    by (cases "Option.bind (get_range t 8 10) u16_from_le") simp_all
  from d sz alg obtain off where off: "Option.bind (get_range t 12 16) u32_from_le = Some off"
    by (cases "Option.bind (get_range t 12 16) u32_from_le") simp_all
  have "unat sz \<le> max_decompressed \<and> decompress_payload (unat sz) (unat off) (drop transform_header_len t) = Some msg"
    using d by (simp add: sz alg off split: if_splits)
  with decompress_payload_length
  show "length msg \<le> max_decompressed" and "Option.bind (get_range t 4 8) u32_from_le = Some (of_nat (length msg))"
    by (auto simp: sz)
qed

lemma decompress_compress_message:
  assumes "length plaintext \<le> max_decompressed"
  shows "decompress_message (compress_message plaintext) = Some plaintext"
proof -
  have n: "unat (of_nat (length plaintext) :: u32) = length plaintext"
    unfolding unat_of_nat using assms by (intro mod_less) (simp add: max_decompressed_def)
  have "compress_message plaintext =
      header (of_nat (length plaintext)) compression_algorithm_lz77 0 0 @ lz77_compress plaintext"
    by (simp add: compress_message_def header_def)
  then show ?thesis
    using assms lz77_roundtrip [of plaintext "length plaintext"] by (simp add: decompress_message_header decompress_payload_0 n)
qed

text \<open>
  \<^bold>\<open>C36.\<close> Every message of up to 16 MiB survives compression: wrapping it in the transform header and
  decoding the result gives the message back.
\<close>

theorem message_roundtrip:
  "length plaintext \<le> max_decompressed \<Longrightarrow> decompress_message (compress_message plaintext) = Some plaintext"
  by (rule decompress_compress_message)

lemma message_roundtrip_witness:
  "decompress_message (compress_message [1, 2, 3, 1, 2, 3, 1, 2, 3, 4]) = Some [1, 2, 3, 1, 2, 3, 1, 2, 3, 4] \<and>
   lz77_compress [1, 2, 3, 1, 2, 3, 1, 2, 3, 4] = [0, 0, 0, 16, 1, 2, 3, 19, 0, 4]"
  by (intro conjI message_roundtrip) (simp add: max_decompressed_def, code_simp)

text \<open>
  \<^bold>\<open>C37.\<close> No stream expands past its limit: whatever the lengths it declares, the decompressor returns at
  most the number of bytes it was allowed, and a decoded message has exactly the declared size and
  at most 16 MiB.
\<close>

theorem decompression_bounded:
  "(lz77_decompress input n = Some out \<longrightarrow> length out \<le> n) \<and>
   (decompress_message t = Some msg \<longrightarrow>
      length msg \<le> max_decompressed \<and> Option.bind (get_range t 4 8) u32_from_le = Some (of_nat (length msg)))"
  using lz77_bounded decompress_message_size by blast

lemma decompression_bounded_witness:
  "lz77_decompress (lz77_compress [5, 5, 5, 5, 5, 5, 5, 5]) 8 = Some [5, 5, 5, 5, 5, 5, 5, 5] \<and>
   length [5, 5, 5, 5, 5, 5, 5, 5 :: u8] \<le> 8 \<and>
   lz77_decompress (lz77_compress [5, 5, 5, 5, 5, 5, 5, 5]) 7 = None \<and>
   decompress_message (compress_message [5]) = Some [5] \<and> length [5 :: u8] \<le> max_decompressed"
proof -
  have a: "lz77_decompress (lz77_compress [5, 5, 5, 5, 5, 5, 5, 5]) 8 = Some [5, 5, 5, 5, 5, 5, 5, 5]"
    and b: "lz77_decompress (lz77_compress [5, 5, 5, 5, 5, 5, 5, 5]) 7 = None" by code_simp+
  have c: "decompress_message (compress_message [5]) = Some [5]"
    by (rule decompress_compress_message) (simp add: max_decompressed_def)
  show ?thesis
    using a b c decompression_bounded [of "lz77_compress [5, 5, 5, 5, 5, 5, 5, 5]" 8 "[5, 5, 5, 5, 5, 5, 5, 5]"
        "compress_message [5]" "[5]"] by (intro conjI) (simp_all only: simp_thms)
qed

end
