(* ===== verification/Spec2Isabelle.thy ===== *)
theory Spec2Isabelle
  imports Accounts Dhcp_System Center_Api Dns_Resolver Dns_Cache Smb_Comp
begin

text \<open>
  \<^bold>\<open>Magnetite: a verification development.\<close>

  Magnetite (under \<^verbatim>\<open>src/crates\<close>) is an infrastructure server in Rust: one process with a web portal
  and embedded network services (DHCP, DNS, proxy, directory, mail), a SurrealDB store behind them,
  and replication between nodes. The development models parts of it as HOL functions on explicit
  states and proves the properties these parts are meant to have.

  \<^bold>\<open>Foundations.\<close> \<^verbatim>\<open>Rust_Prelude\<close> has the methods of \<^verbatim>\<open>str\<close> on UTF-8 byte strings, the integer types as
  words and generic list lemmas. \<^verbatim>\<open>Rust_Net\<close> has \<^verbatim>\<open>std::net\<close>: IPv4 and IPv6 parsing as the standard
  library's parser does it, printing, and prefix masks. \<^verbatim>\<open>Rust_Result\<close> has \<^verbatim>\<open>Result\<close>, the question-mark
  operator with and without a store, and \<^verbatim>\<open>DbError\<close>. \<^verbatim>\<open>Rust_Json\<close> has the part of \<^verbatim>\<open>serde_json\<close> the sources
  call, as a record of operations, with an instance. \<^verbatim>\<open>Rust_Bytes\<close> has slices of bytes and little-endian
  integers.

  \<^bold>\<open>Authorization.\<close> \<^verbatim>\<open>Authz\<close> models \<^verbatim>\<open>magnetite-core/src/authz.rs\<close> and \<^verbatim>\<open>password.rs\<close>; its lemmas give the decision
  table and that OIDC claims never escalate. \<^verbatim>\<open>Accounts\<close> models the account and session repositories
  (\<^verbatim>\<open>magnetite-db/src/accounts.rs\<close>, \<^verbatim>\<open>sessions.rs\<close>, the append of \<^verbatim>\<open>audit.rs\<close>) and the server functions
  \<^verbatim>\<open>server_fns/auth.rs\<close> and \<^verbatim>\<open>account.rs\<close>. Its state is a record of tables; \<open>auth_step\<close> has one rule for each
  server function and \<open>auth_inv\<close> is kept by all of them. An audit entry has the fields the
  functions set differently; the domain, always the portal here, and the free-form detail are
  dropped.

  \<^bold>\<open>DHCP.\<close> \<^verbatim>\<open>Dhcp_Model\<close> is \<^verbatim>\<open>magnetite-core/src/domains/dhcp\<close>: data and validation. \<^verbatim>\<open>Dhcp_Alloc\<close> is
  \<^verbatim>\<open>magnetite-dhcp/src/alloc.rs\<close>: the allocator with split scope. \<^verbatim>\<open>Dhcp_Store\<close> is \<^verbatim>\<open>magnetite-db/src/dhcp.rs\<close>
  and the replication pass of \<^verbatim>\<open>magnetite-server/src/repl.rs\<close>. \<^verbatim>\<open>Dhcp_Service\<close> is \<^verbatim>\<open>wire.rs\<close> and the handler of
  \<^verbatim>\<open>service.rs\<close>. \<^verbatim>\<open>Dhcp_System\<close> puts them together as the step relation \<open>dhcp_step\<close>. The handler rests on
  the allocator through the locale \<open>address_allocator\<close>, replication on the locale \<open>newest_wins\<close>;
  both are interpreted on the definitions of the model.

  \<^bold>\<open>Control plane.\<close> \<^verbatim>\<open>Failover\<close> is the pure evaluator \<^verbatim>\<open>magnetite-center/src/failover.rs\<close>, its four stages as
  definitions of their own. \<^verbatim>\<open>Center_Store\<close> is \<^verbatim>\<open>store.rs\<close>, \<^verbatim>\<open>Center_Poll\<close> the loops of \<^verbatim>\<open>poll.rs\<close> and \<^verbatim>\<open>leader.rs\<close> (a
  world is the store with the commands sent; the network answers by the number of the command),
  \<^verbatim>\<open>Center_Leader\<close> the election as a step relation with the lease as the locale \<open>lease_register\<close>,
  interpreted on the store, \<^verbatim>\<open>Center_System\<close> the facts about a whole turn of the loop, and \<^verbatim>\<open>Center_Api\<close>
  the handlers of \<^verbatim>\<open>api.rs\<close> behind the bearer check.

  \<^bold>\<open>DNS.\<close> \<^verbatim>\<open>Dns_Model\<close> is \<^verbatim>\<open>magnetite-core/src/domains/dns\<close>: data and validation. \<^verbatim>\<open>Dns_Resolver\<close> is
  \<^verbatim>\<open>magnetite-dns/src/resolver.rs\<close> and \<^verbatim>\<open>geo.rs\<close>: the snapshot, zones, wildcards, aliases, response policy; its
  lemmas say when a name is refused, denied or answered, and what an answer can contain. \<^verbatim>\<open>Dns_Cache\<close> is
  \<^verbatim>\<open>cache.rs\<close> with a map as its specification and the proof that the bounded cache implements it.

  \<^bold>\<open>SMB.\<close> \<^verbatim>\<open>Smb_Comp\<close> is \<^verbatim>\<open>magnetite-smb/src/comp.rs\<close>: plain LZ77 and the transform header. Its lemmas
  describe the compressed stream as a list of tokens; compressor and decompressor are related
  through it.

  \<^bold>\<open>Conventions.\<close> A table is the list of its rows in scan order; \<^verbatim>\<open>ORDER BY\<close> is a stable sort. A unique
  index is an insert that fails. Whether a query fails is a parameter, so every error path is a
  branch. The clock, new record ids, salts and the third-party codecs and hashes are fields of an
  environment record. Times are integers in nanoseconds.

  \<^bold>\<open>Bounds.\<close> No definition needs fuel: every loop is a recursion on a list, on the finite range of a
  32-bit word, on the rest of the input, or, for the chain of DNS aliases, on the depth the code
  counts up to eight.

  \<^bold>\<open>Not modelled.\<close> Sockets, timers and task scheduling (a handler is one atomic step; where the code's
  check and its write are separate queries and this matters, the two halves are also definitions
  of their own); the web views; the database itself.
\<close>

end
